(* ===== verification/Prelude.thy ===== *)
theory Prelude
  imports Main "HOL-Library.AList"
begin

text \<open>
  Shared vocabulary of the ChronoReply development: the Python exceptions the
  modelled code can raise, the result type of a fallible Python expression
  (\<open>py_error + 'a\<close>, \<open>Inl\<close> the exception), the units of time, and the generic
  lemmas on sums, lists and association lists that the component theories use.
\<close>

section \<open>Python exceptions and fallible results\<close>

text \<open>
  The exceptions that the statements of \<^verbatim>\<open>src/chronoreply.py\<close> can raise and that
  matter to its control flow: a missing dictionary key, a failed \<^verbatim>\<open>int()\<close>
  conversion or an out-of-range \<^verbatim>\<open>datetime.replace\<close>, a comparison between a
  datetime and another type, a method called on a value of the wrong type, and
  \<^verbatim>\<open>pytz.timezone\<close> on an unknown zone name.
\<close>

datatype py_error =
    KeyError
  | ValueError
  | TypeError
  | AttributeError
  | UnknownTimeZoneError
  | OverflowError

type_synonym 'a py_result = "py_error + 'a"

text \<open>Sequencing of two fallible steps: the first exception propagates.\<close>

definition pbind :: "'a py_result \<Rightarrow> ('a \<Rightarrow> 'b py_result) \<Rightarrow> 'b py_result" where
  "pbind r f = (case r of Inl e \<Rightarrow> Inl e | Inr x \<Rightarrow> f x)"

definition of_option :: "py_error \<Rightarrow> 'a option \<Rightarrow> 'a py_result" where
  "of_option e r = (case r of None \<Rightarrow> Inl e | Some x \<Rightarrow> Inr x)"

named_theorems py_simps "evaluation rules of the Python runtime model"

lemma pbind_Inl [simp, py_simps]: "pbind (Inl e) f = Inl e"
  by (simp add: pbind_def)

lemma pbind_Inr [simp, py_simps]: "pbind (Inr x) f = f x"
  by (simp add: pbind_def)

lemma pbind_eq_Inr:
  "pbind r f = Inr y \<longleftrightarrow> (\<exists>x. r = Inr x \<and> f x = Inr y)"
  by (cases r) auto

lemma pbind_eq_Inl:
  "pbind r f = Inl e \<longleftrightarrow> r = Inl e \<or> (\<exists>x. r = Inr x \<and> f x = Inl e)"
  by (cases r) auto

lemma of_option_simps [simp, py_simps]:
  "of_option e None = Inl e"
  "of_option e (Some x) = Inr x"
  by (simp_all add: of_option_def)

lemma of_option_eq_Inr [simp]: "of_option e r = Inr x \<longleftrightarrow> r = Some x"
  by (cases r) auto

section \<open>Time units\<close>

text \<open>
  An instant is a count of microseconds; a UTC offset is a count of minutes (pytz
  rounds every offset to whole minutes). A time zone, as \<^verbatim>\<open>pytz\<close> uses it in
  \<^verbatim>\<open>datetime.now(tz)\<close>, maps the UTC instant to the offset in force then.
\<close>

type_synonym instant = int
type_synonym tzinfo = "instant \<Rightarrow> int"

definition us_per_sec :: int where "us_per_sec = 1000000"
definition us_per_min :: int where "us_per_min = 60000000"
definition us_per_hour :: int where "us_per_hour = 3600000000"
definition us_per_day :: int where "us_per_day = 86400000000"

text \<open>The unit constants stay folded in terms with \<open>div\<close> and \<open>mod\<close>: the
  arithmetic decision procedures split \<open>div\<close> by a numeral and become slow on
  numerals this large.\<close>

lemmas us_unit_defs = us_per_sec_def us_per_min_def us_per_hour_def us_per_day_def

lemma us_pos [simp]: "0 < us_per_sec" "0 < us_per_min" "0 < us_per_hour" "0 < us_per_day"
  by (simp_all add: us_unit_defs)

lemma us_units_dvd: "us_per_sec dvd us_per_min" "us_per_min dvd us_per_hour" "us_per_hour dvd us_per_day"
  by (simp_all add: us_unit_defs)

section \<open>Generic list and association-list facts\<close>

text \<open>\<^verbatim>\<open>list.index(x)\<close> for an element known to be present.\<close>

fun py_index :: "'a list \<Rightarrow> 'a \<Rightarrow> nat" where
  "py_index [] x = 0"
| "py_index (y # ys) x = (if y = x then 0 else Suc (py_index ys x))"

lemma py_index_nth: "x \<in> set xs \<Longrightarrow> xs ! py_index xs x = x"
  by (induction xs) auto

lemma py_index_less: "x \<in> set xs \<Longrightarrow> py_index xs x < length xs"
  by (induction xs) auto

lemma py_index_before: "k < py_index xs x \<Longrightarrow> xs ! k \<noteq> x"
  by (induction xs arbitrary: k) (auto simp: nth_Cons split: nat.splits if_splits)

lemma map_of_update_same [simp]: "map_of (AList.update k v d) k = Some v"
  by (simp add: update_conv')

lemma map_of_update_other [simp]: "k' \<noteq> k \<Longrightarrow> map_of (AList.update k v d) k' = map_of d k'"
  by (simp add: update_conv')

lemma update_keys [simp]: "map fst (AList.update k v d) = (if k \<in> set (map fst d) then map fst d else map fst d @ [k])"
  by (induction d) auto

lemma update_existing_length:
  "k \<in> set (map fst d) \<Longrightarrow> length (AList.update k v d) = length d"
  by (induction d) auto

text \<open>The entries appended to a log after position \<open>m\<close>.\<close>

lemma in_set_drop_append: "m \<le> length a \<Longrightarrow> x \<in> set (drop m (a @ x # b))"
  by (simp add: drop_append)

lemma set_drop_append_subset: "set (drop m (a @ b)) \<subseteq> set (drop m a) \<union> set b"
  by (auto simp: drop_append dest: in_set_dropD)

lemma set_drop_append_mono: "m \<le> length a \<Longrightarrow> set (drop m a) \<subseteq> set (drop m (a @ b))"
  by (simp add: drop_append)

end
