(* ===== verification/Calendar.thy ===== *)
theory Calendar
  imports Prelude
begin

text \<open>
  The part of Python's \<^verbatim>\<open>datetime\<close> library (with \<^verbatim>\<open>pytz\<close> time zones) that
  ChronoReply calls: the proleptic Gregorian calendar (ordinals, leap years,
  month lengths), naive date-times, aware date-times with a fixed UTC offset,
  \<^verbatim>\<open>datetime.now(tz)\<close>, \<^verbatim>\<open>replace\<close>, \<^verbatim>\<open>+ timedelta(days=k)\<close>, \<^verbatim>\<open>weekday()\<close>,
  \<^verbatim>\<open>astimezone(pytz.utc)\<close> and the comparison of aware date-times.
  These are library semantics, not repository code; the calendar functions follow
  \<^verbatim>\<open>_is_leap\<close>, \<^verbatim>\<open>_days_in_month\<close>, \<^verbatim>\<open>_days_before_year\<close>,
  \<^verbatim>\<open>_days_before_month\<close> and \<^verbatim>\<open>_ymd2ord\<close> of CPython's \<^verbatim>\<open>datetime\<close> module.
\<close>

section \<open>The proleptic Gregorian calendar\<close>

definition is_leap :: "int \<Rightarrow> bool" where
  "is_leap y \<longleftrightarrow> y mod 4 = 0 \<and> (y mod 100 \<noteq> 0 \<or> y mod 400 = 0)"

definition days_in_month :: "int \<Rightarrow> int \<Rightarrow> int" where
  "days_in_month y m =
     (if m = 2 then (if is_leap y then 29 else 28)
      else if m = 4 \<or> m = 6 \<or> m = 9 \<or> m = 11 then 30 else 31)"

definition days_before_year :: "int \<Rightarrow> int" where
  "days_before_year y = (let z = y - 1 in z * 365 + z div 4 - z div 100 + z div 400)"

text \<open>\<^verbatim>\<open>_DAYS_BEFORE_MONTH[month] + (month > 2 and _is_leap(year))\<close>.\<close>

definition days_before_month :: "int \<Rightarrow> int \<Rightarrow> int" where
  "days_before_month y m =
     [0, 31, 59, 90, 120, 151, 181, 212, 243, 273, 304, 334] ! nat (m - 1)
     + (if 2 < m \<and> is_leap y then 1 else 0)"

definition ymd_to_ord :: "int \<Rightarrow> int \<Rightarrow> int \<Rightarrow> int" where
  "ymd_to_ord y m d = days_before_year y + days_before_month y m + d"

text \<open>The constructor's check: \<^verbatim>\<open>MINYEAR <= year <= MAXYEAR\<close>, \<^verbatim>\<open>1 <= month <= 12\<close>,
  \<^verbatim>\<open>1 <= day <= days_in_month\<close>.\<close>

definition valid_ymd :: "int \<Rightarrow> int \<Rightarrow> int \<Rightarrow> bool" where
  "valid_ymd y m d \<longleftrightarrow> 1 \<le> y \<and> y \<le> 9999 \<and> 1 \<le> m \<and> m \<le> 12 \<and> 1 \<le> d \<and> d \<le> days_in_month y m"

lemma days_in_month_bounds: "28 \<le> days_in_month y m" "days_in_month y m \<le> 31"
  by (simp_all add: days_in_month_def)

subsection \<open>Year and month lengths\<close>

lemma div_step:
  assumes k: "0 < (k::int)"
  shows "y div k = (y - 1) div k + (if y mod k = 0 then 1 else 0)"
proof -
  define q r where "q = (y - 1) div k" and "r = (y - 1) mod k"
  have y: "y = (r + 1) + q * k" using div_mult_mod_eq[of "y - 1" k] by (simp add: q_def r_def algebra_simps)
  have r: "0 \<le> r" "r < k" using k by (simp_all add: r_def)
  show ?thesis
  proof (cases "r + 1 = k")
    case True
    then have "y = 0 + (q + 1) * k" using y by (simp add: algebra_simps)
    then have "y div k = q + 1" "y mod k = 0" using k by (simp_all only: div_mult_self1 mod_mult_self1) simp_all
    then show ?thesis by (simp add: q_def)
  next
    case False
    then have r1: "0 \<le> r + 1" "r + 1 < k" using r by simp_all
    have "y div k = q + (r + 1) div k" "y mod k = (r + 1) mod k"
      using k y by (simp_all only: div_mult_self1 mod_mult_self1)
    moreover have "(r + 1) div k = 0" "(r + 1) mod k = r + 1" using r1 by simp_all
    ultimately show ?thesis using r by (simp add: q_def)
  qed
qed

lemma leap_dvd_chain:
  "(y::int) mod 400 = 0 \<Longrightarrow> y mod 100 = 0" "(y::int) mod 100 = 0 \<Longrightarrow> y mod 4 = 0"
proof -
  have "(100::int) dvd 400" "(4::int) dvd 100" by simp_all
  then show "(y::int) mod 400 = 0 \<Longrightarrow> y mod 100 = 0" "(y::int) mod 100 = 0 \<Longrightarrow> y mod 4 = 0"
    by (auto simp: dvd_eq_mod_eq_0[symmetric] intro: dvd_trans)
qed


lemma leap_indicator:
  "(if y mod 4 = 0 then 1 else 0) - (if y mod 100 = 0 then 1 else 0) + (if y mod 400 = 0 then 1 else (0::int))
   = (if is_leap y then 1 else 0)"
proof (cases "y mod 400 = 0")
  case True
  with leap_dvd_chain[of y] show ?thesis by (simp add: is_leap_def)
next
  case n400: False
  show ?thesis
  proof (cases "y mod 100 = 0")
    case True
    with n400 leap_dvd_chain[of y] show ?thesis by (simp add: is_leap_def)
  next
    case False
    with n400 show ?thesis by (simp add: is_leap_def)
  qed
qed

lemma days_before_year_succ:
  "days_before_year (y + 1) = days_before_year y + (if is_leap y then 366 else 365)"
proof -
  define a b c :: int where "a = (if y mod 4 = 0 then 1 else 0)"
    and "b = (if y mod 100 = 0 then 1 else 0)" and "c = (if y mod 400 = 0 then 1 else 0)"
  have d: "y div 4 = (y - 1) div 4 + a" "y div 100 = (y - 1) div 100 + b" "y div 400 = (y - 1) div 400 + c"
    unfolding a_def b_def c_def by (rule div_step, simp)+
  have lin: "\<And>(p4::int) p100 p400 q4 q100 q400. p4 = q4 + a \<Longrightarrow> p100 = q100 + b \<Longrightarrow> p400 = q400 + c \<Longrightarrow>
      y * 365 + p4 - p100 + p400 = (y - 1) * 365 + q4 - q100 + q400 + (365 + (a - b + c))"
    by (simp add: algebra_simps)
  have "days_before_year (y + 1) = days_before_year y + (365 + (a - b + c))"
    unfolding days_before_year_def Let_def add_diff_cancel_right' by (rule lin[OF d])
  then show ?thesis unfolding a_def b_def c_def leap_indicator by simp
qed

lemma days_before_year_add:
  "days_before_year y + 365 * int k \<le> days_before_year (y + int k)"
proof (induction k)
  case 0 then show ?case by simp
next
  case (Suc k)
  have eq: "y + int (Suc k) = (y + int k) + 1" by simp
  have "days_before_year (y + int k) + 365 \<le> days_before_year (y + int (Suc k))"
    unfolding eq days_before_year_succ by simp
  with Suc show ?case by simp
qed

lemma days_before_year_less: "a < b \<Longrightarrow> days_before_year a < days_before_year b"
proof -
  assume "a < b"
  then obtain k where k: "b = a + int (Suc k)" by (metis zless_iff_Suc_zadd)
  from days_before_year_add[of a "Suc k"] k show ?thesis by simp
qed

lemma days_before_year_le: "a \<le> b \<Longrightarrow> days_before_year a \<le> days_before_year b"
  using days_before_year_less[of a b] by (cases "a = b") auto

lemma days_before_year_start:
  assumes "1 \<le> n" shows "days_before_year ((n - 1) div 366 + 1) < n"
proof -
  define z where "z = (n - 1) div 366"
  have z0: "0 \<le> z" using assms by (simp add: z_def)
  have "z div 400 \<le> z div 100" using z0 by (simp add: zdiv_mono2)
  moreover have "z div 4 \<le> z" using z0 by simp
  moreover have "366 * z \<le> n - 1" unfolding z_def by simp
  moreover have "days_before_year (z + 1) = z * 365 + z div 4 - z div 100 + z div 400"
    by (simp add: days_before_year_def)
  ultimately show ?thesis unfolding z_def[symmetric] by linarith
qed

function year_search :: "int \<Rightarrow> int \<Rightarrow> int" where
  "year_search n y = (if days_before_year (y + 1) < n then year_search n (y + 1) else y)"
  by pat_completeness auto
termination
proof (relation "measure (\<lambda>(n, y). nat (n - days_before_year (y + 1)))")
  fix n y :: int
  assume "days_before_year (y + 1) < n"
  moreover have "days_before_year (y + 1) < days_before_year (y + 1 + 1)"
    by (rule days_before_year_less) simp
  ultimately show "((n, y + 1), n, y) \<in> measure (\<lambda>(n, y). nat (n - days_before_year (y + 1)))"
    by simp
qed simp

declare year_search.simps [simp del]

lemma year_search_spec:
  "days_before_year y < n \<Longrightarrow>
     y \<le> year_search n y \<and> days_before_year (year_search n y) < n \<and> n \<le> days_before_year (year_search n y + 1)"
proof (induction n y rule: year_search.induct)
  case (1 n y)
  show ?case
  proof (cases "days_before_year (y + 1) < n")
    case True
    with "1.IH" have "y + 1 \<le> year_search n (y + 1) \<and> days_before_year (year_search n (y + 1)) < n
        \<and> n \<le> days_before_year (year_search n (y + 1) + 1)" by blast
    with True show ?thesis by (simp add: year_search.simps [of n y])
  next
    case False
    with "1.prems" show ?thesis by (simp add: year_search.simps [of n y])
  qed
qed

lemma year_bracket_unique:
  assumes "days_before_year a < n" "n \<le> days_before_year (a + 1)"
      and "days_before_year b < n" "n \<le> days_before_year (b + 1)"
  shows "a = b"
proof (rule ccontr)
  assume "a \<noteq> b"
  then consider "a + 1 \<le> b" | "b + 1 \<le> a" by linarith
  then show False
  proof cases
    case 1 then show False using assms days_before_year_le[of "a + 1" b] by simp
  next
    case 2 then show False using assms days_before_year_le[of "b + 1" a] by simp
  qed
qed

lemma month_cases:
  assumes "1 \<le> m" "m \<le> (12::int)"
  shows "m = 1 \<or> m = 2 \<or> m = 3 \<or> m = 4 \<or> m = 5 \<or> m = 6 \<or> m = 7 \<or> m = 8 \<or> m = 9 \<or> m = 10 \<or> m = 11 \<or> m = 12"
  using assms by arith

lemma days_before_month_succ:
  "1 \<le> m \<Longrightarrow> m < 12 \<Longrightarrow> days_before_month y (m + 1) = days_before_month y m + days_in_month y m"
  using month_cases[of m] by (auto simp: days_before_month_def days_in_month_def)

lemma days_before_month_first [simp]: "days_before_month y 1 = 0"
  by (simp add: days_before_month_def)

lemma days_before_month_last:
  "days_before_month y 12 + days_in_month y 12 = (if is_leap y then 366 else 365)"
  by (simp add: days_before_month_def days_in_month_def)

lemma days_before_month_nonneg: "1 \<le> m \<Longrightarrow> m \<le> 12 \<Longrightarrow> 0 \<le> days_before_month y m"
  using month_cases[of m] by (auto simp: days_before_month_def)

lemma days_before_month_le:
  assumes "1 \<le> a" "a \<le> b" "b \<le> 12"
  shows "days_before_month y a + days_in_month y a \<le> days_before_month y b \<or> a = b"
proof -
  obtain k where b: "b = a + int k" using assms(2) by (metis zle_iff_zadd)
  have "1 \<le> a \<Longrightarrow> a + int k \<le> 12 \<Longrightarrow> 0 < k \<Longrightarrow> days_before_month y a + days_in_month y a \<le> days_before_month y (a + int k)"
  proof (induction k)
    case 0 then show ?case by simp
  next
    case (Suc k)
    show ?case
    proof (cases "k = 0")
      case True
      with Suc.prems show ?thesis by (simp add: days_before_month_succ)
    next
      case False
      with Suc have ih: "days_before_month y a + days_in_month y a \<le> days_before_month y (a + int k)" by simp
      have eq: "a + int (Suc k) = (a + int k) + 1" by simp
      have "days_before_month y (a + int k) \<le> days_before_month y (a + int (Suc k))"
        unfolding eq using Suc.prems False days_in_month_bounds[of y "a + int k"]
        by (subst days_before_month_succ) simp_all
      with ih show ?thesis by simp
    qed
  qed
  with assms b show ?thesis by (cases "k = 0") auto
qed

lemma month_bracket_unique:
  assumes "1 \<le> a" "a \<le> 12" "1 \<le> b" "b \<le> 12"
      and "days_before_month y a < r" "r \<le> days_before_month y a + days_in_month y a"
      and "days_before_month y b < r" "r \<le> days_before_month y b + days_in_month y b"
  shows "a = b"
proof (rule ccontr)
  assume "a \<noteq> b"
  then consider "a < b" | "b < a" by linarith
  then show False
  proof cases
    case 1 then show False using assms days_before_month_le[of a b y] by simp
  next
    case 2 then show False using assms days_before_month_le[of b a y] by simp
  qed
qed

function month_search :: "int \<Rightarrow> int \<Rightarrow> int \<Rightarrow> int" where
  "month_search y r m = (if m < 12 \<and> days_before_month y (m + 1) < r then month_search y r (m + 1) else m)"
  by pat_completeness auto
termination
  by (relation "measure (\<lambda>(y, r, m). nat (12 - m))") auto

declare month_search.simps [simp del]

lemma month_search_spec:
  "1 \<le> m \<Longrightarrow> m \<le> 12 \<Longrightarrow> days_before_month y m < r \<Longrightarrow> r \<le> (if is_leap y then 366 else 365) \<Longrightarrow>
     1 \<le> month_search y r m \<and> month_search y r m \<le> 12 \<and> days_before_month y (month_search y r m) < r
     \<and> r \<le> days_before_month y (month_search y r m) + days_in_month y (month_search y r m)"
proof (induction y r m rule: month_search.induct)
  case (1 y r m)
  show ?case
  proof (cases "m < 12 \<and> days_before_month y (m + 1) < r")
    case True
    with "1.IH" "1.prems" show ?thesis by (simp add: month_search.simps [of y r m])
  next
    case False
    then consider "m = 12" | "m < 12" "r \<le> days_before_month y (m + 1)" using "1.prems" by linarith
    then show ?thesis
    proof cases
      case 1
      with "1.prems" days_before_month_last[of y] show ?thesis by (simp add: month_search.simps [of y r 12])
    next
      case 2
      with "1.prems" days_before_month_succ[of m y] show ?thesis by (simp add: month_search.simps [of y r m])
    qed
  qed
qed

definition ord_to_ymd :: "int \<Rightarrow> int \<times> int \<times> int" where
  "ord_to_ymd n =
     (let y = year_search n ((n - 1) div 366 + 1);
          r = n - days_before_year y;
          m = month_search y r 1
      in (y, m, r - days_before_month y m))"

lemma days_before_year_one [simp]: "days_before_year 1 = 0"
  by (simp add: days_before_year_def)

lemma ord_to_ymd_correct:
  assumes "1 \<le> n" and "ord_to_ymd n = (y, m, d)"
  shows "1 \<le> y \<and> 1 \<le> m \<and> m \<le> 12 \<and> 1 \<le> d \<and> d \<le> days_in_month y m \<and> ymd_to_ord y m d = n"
proof -
  define s where "s = (n - 1) div 366 + 1"
  have s1: "1 \<le> s" using assms(1) by (simp add: s_def)
  have y: "y = year_search n s" and m: "m = month_search y (n - days_before_year y) 1"
     and d: "d = n - days_before_year y - days_before_month y m"
    using assms(2) by (auto simp: ord_to_ymd_def s_def Let_def)
  have "days_before_year s < n" unfolding s_def using assms(1) by (rule days_before_year_start)
  then have ys: "s \<le> y" "days_before_year y < n" "n \<le> days_before_year (y + 1)"
    using year_search_spec[of s n] by (simp_all add: y)
  let ?r = "n - days_before_year y"
  have "?r \<le> (if is_leap y then 366 else 365)" using ys(3) days_before_year_succ[of y] by simp
  with ys(2) have "1 \<le> m \<and> m \<le> 12 \<and> days_before_month y m < ?r \<and> ?r \<le> days_before_month y m + days_in_month y m"
    using month_search_spec[of 1 y ?r] by (simp add: m)
  with s1 ys(1) show ?thesis by (simp add: d ymd_to_ord_def)
qed

theorem ymd_to_ord_to_ymd:
  assumes "valid_ymd y m d"
  shows "ord_to_ymd (ymd_to_ord y m d) = (y, m, d)"
proof -
  define n where "n = ymd_to_ord y m d"
  obtain y' m' d' where o: "ord_to_ymd n = (y', m', d')" by (metis prod_cases3)
  have v: "1 \<le> y" "1 \<le> m" "m \<le> 12" "1 \<le> d" "d \<le> days_in_month y m" using assms by (simp_all add: valid_ymd_def)
  have "0 \<le> days_before_year y" using days_before_year_le[of 1 y] v(1) by simp
  moreover have "0 \<le> days_before_month y m" using v by (simp add: days_before_month_nonneg)
  ultimately have n1: "1 \<le> n" using v by (simp add: n_def ymd_to_ord_def)
  have c: "1 \<le> y' \<and> 1 \<le> m' \<and> m' \<le> 12 \<and> 1 \<le> d' \<and> d' \<le> days_in_month y' m' \<and> ymd_to_ord y' m' d' = n"
    by (rule ord_to_ymd_correct [OF n1 o])
  have mlast: "days_before_month y m + days_in_month y m \<le> (if is_leap y then 366 else 365)"
    using days_before_month_le[of m 12 y] days_before_month_last[of y] v days_in_month_bounds[of y 12] by auto
  have mlast': "days_before_month y' m' + days_in_month y' m' \<le> (if is_leap y' then 366 else 365)"
    using days_before_month_le[of m' 12 y'] days_before_month_last[of y'] c days_in_month_bounds[of y' 12] by auto
  have "days_before_month y' m' \<ge> 0" using c by (simp add: days_before_month_nonneg)
  then have yy: "y' = y"
    using year_bracket_unique[of y n y'] c mlast mlast' v days_before_year_succ[of y] days_before_year_succ[of y']
      \<open>0 \<le> days_before_month y m\<close>
    by (simp add: n_def ymd_to_ord_def)
  have mm: "m' = m"
    using month_bracket_unique[of m' m y "n - days_before_year y"] c v yy
    by (simp add: n_def ymd_to_ord_def)
  from c yy mm have "d' = d" by (simp add: n_def ymd_to_ord_def)
  with o yy mm show ?thesis by (simp add: n_def)
qed

section \<open>Naive date-times\<close>

text \<open>
  A naive \<^verbatim>\<open>datetime\<close>: its date is kept as the proleptic ordinal
  (\<^verbatim>\<open>toordinal()\<close>, day 1 being 0001-01-01), its time of day as the four fields of
  the class.
\<close>

record naive =
  dord :: int
  hour :: int
  minute :: int
  second :: int
  microsecond :: int

definition wf_naive :: "naive \<Rightarrow> bool" where
  "wf_naive x \<longleftrightarrow> 0 \<le> hour x \<and> hour x < 24 \<and> 0 \<le> minute x \<and> minute x < 60
     \<and> 0 \<le> second x \<and> second x < 60 \<and> 0 \<le> microsecond x \<and> microsecond x < 1000000"

text \<open>The linear value of a naive date-time, in microseconds.\<close>

definition naive_us :: "naive \<Rightarrow> int" where
  "naive_us x = dord x * us_per_day + hour x * us_per_hour + minute x * us_per_min
     + second x * us_per_sec + microsecond x"

definition naive_of_us :: "int \<Rightarrow> naive" where
  "naive_of_us v =
     \<lparr>dord = v div us_per_day, hour = (v mod us_per_day) div us_per_hour,
      minute = (v mod us_per_hour) div us_per_min, second = (v mod us_per_min) div us_per_sec,
      microsecond = v mod us_per_sec\<rparr>"

section \<open>Aware date-times\<close>

text \<open>
  An aware date-time as \<^verbatim>\<open>pytz\<close> produces it: the wall-clock fields and the
  fixed offset of the \<^verbatim>\<open>tzinfo\<close> attached to them. \<^verbatim>\<open>replace\<close> and
  \<^verbatim>\<open>+ timedelta\<close> keep the \<^verbatim>\<open>tzinfo\<close>, so the offset chosen by
  \<^verbatim>\<open>datetime.now(tz)\<close> stays in force through the arithmetic (no \<^verbatim>\<open>normalize\<close>
  is called anywhere in the source).
\<close>

record aware =
  wall :: naive
  utcoff :: int

definition utc_us :: "aware \<Rightarrow> instant" where
  "utc_us a = naive_us (wall a) - utcoff a * us_per_min"

text \<open>\<^verbatim>\<open>a <= b\<close> on aware date-times compares the UTC instants.\<close>

definition aware_le :: "aware \<Rightarrow> aware \<Rightarrow> bool" where
  "aware_le a b \<longleftrightarrow> utc_us a \<le> utc_us b"

text \<open>The instant \<open>t\<close> read on a wall clock running at the offset \<open>off\<close>.\<close>

definition with_offset :: "int \<Rightarrow> instant \<Rightarrow> aware" where
  "with_offset off t = \<lparr>wall = naive_of_us (t + off * us_per_min), utcoff = off\<rparr>"

text \<open>\<^verbatim>\<open>datetime.now(tz)\<close> when the clock reads the UTC instant \<open>u\<close>.\<close>

definition now_in :: "tzinfo \<Rightarrow> instant \<Rightarrow> aware" where
  "now_in tz u = \<lparr>wall = naive_of_us (u + tz u * us_per_min), utcoff = tz u\<rparr>"

text \<open>\<^verbatim>\<open>dt.astimezone(pytz.utc)\<close>.\<close>

definition as_utc :: "aware \<Rightarrow> aware" where
  "as_utc a = \<lparr>wall = naive_of_us (utc_us a), utcoff = 0\<rparr>"

text \<open>The C implementation of \<^verbatim>\<open>datetime.replace\<close> first converts every
  argument to a C \<^verbatim>\<open>int\<close> (\<^verbatim>\<open>PyArg_ParseTupleAndKeywords\<close> with format
  \<^verbatim>\<open>i\<close>), which raises \<^verbatim>\<open>OverflowError\<close> outside the 32-bit range, and only then
  checks the ranges of the fields (\<^verbatim>\<open>ValueError\<close>).\<close>

definition fits_c_int :: "int \<Rightarrow> bool" where
  "fits_c_int x \<longleftrightarrow> - 2147483648 \<le> x \<and> x \<le> 2147483647"

text \<open>\<^verbatim>\<open>dt.replace(hour=h, minute=m, second=0, microsecond=0)\<close>.\<close>

definition replace_hm :: "aware \<Rightarrow> int \<Rightarrow> int \<Rightarrow> aware py_result" where
  "replace_hm a h m =
     (if \<not> (fits_c_int h \<and> fits_c_int m) then Inl OverflowError
      else if 0 \<le> h \<and> h < 24 \<and> 0 \<le> m \<and> m < 60
      then Inr (a\<lparr>wall := (wall a)\<lparr>hour := h, minute := m, second := 0, microsecond := 0\<rparr>\<rparr>)
      else Inl ValueError)"

text \<open>\<^verbatim>\<open>dt.replace(day=d, month=mo, year=y, hour=h, minute=mi, second=0,
  microsecond=0)\<close>: the same conversion, then the constructor's checks of the date and
  the time.\<close>

definition replace_ymd_hm :: "aware \<Rightarrow> int \<Rightarrow> int \<Rightarrow> int \<Rightarrow> int \<Rightarrow> int \<Rightarrow> aware py_result" where
  "replace_ymd_hm a y mo d h mi =
     (if \<not> (fits_c_int y \<and> fits_c_int mo \<and> fits_c_int d \<and> fits_c_int h \<and> fits_c_int mi) then Inl OverflowError
      else if valid_ymd y mo d \<and> 0 \<le> h \<and> h < 24 \<and> 0 \<le> mi \<and> mi < 60
      then Inr (a\<lparr>wall := \<lparr>dord = ymd_to_ord y mo d, hour = h, minute = mi, second = 0, microsecond = 0\<rparr>\<rparr>)
      else Inl ValueError)"

text \<open>\<^verbatim>\<open>dt.year\<close>.\<close>

definition year_of :: "aware \<Rightarrow> int" where
  "year_of a = fst (ord_to_ymd (dord (wall a)))"

text \<open>\<^verbatim>\<open>dt + timedelta(days=k)\<close>.\<close>

definition add_days :: "aware \<Rightarrow> int \<Rightarrow> aware" where
  "add_days a k = a\<lparr>wall := (wall a)\<lparr>dord := dord (wall a) + k\<rparr>\<rparr>"

text \<open>\<^verbatim>\<open>dt.weekday()\<close>: Monday is 0; \<^verbatim>\<open>(toordinal() + 6) % 7\<close>.\<close>

definition weekday :: "aware \<Rightarrow> int" where
  "weekday a = (dord (wall a) + 6) mod 7"

section \<open>Facts about the date-time operations\<close>

lemma us_unit_rel: "us_per_day = 24 * us_per_hour" "us_per_hour = 60 * us_per_min" "us_per_min = 60 * us_per_sec"
  by (simp_all add: us_unit_defs)

lemma mod_decomp: "(0::int) < k \<Longrightarrow> k dvd d \<Longrightarrow> v mod d = (v mod d) div k * k + v mod k"
  by (metis div_mult_mod_eq mod_mod_cancel)

lemma naive_us_of_us [simp]: "naive_us (naive_of_us v) = v"
proof -
  have a: "v = v div us_per_day * us_per_day + v mod us_per_day" by simp
  have b: "v mod us_per_day = (v mod us_per_day) div us_per_hour * us_per_hour + v mod us_per_hour"
    using us_units_dvd by (simp add: mod_decomp)
  have c: "v mod us_per_hour = (v mod us_per_hour) div us_per_min * us_per_min + v mod us_per_min"
    using us_units_dvd by (simp add: mod_decomp)
  have d: "v mod us_per_min = (v mod us_per_min) div us_per_sec * us_per_sec + v mod us_per_sec"
    using us_units_dvd by (simp add: mod_decomp)
  show ?thesis unfolding naive_us_def naive_of_us_def naive.select_convs using div_mult_mod_eq[of v us_per_day] b c d by linarith
qed

lemma div_bound: "(0::int) \<le> a \<Longrightarrow> a < n * k \<Longrightarrow> 0 < k \<Longrightarrow> 0 \<le> a div k \<and> a div k < n"
proof -
  assume a: "0 \<le> a" "a < n * k" "0 < k"
  have "0 \<le> a div k" using a by (simp add: pos_imp_zdiv_nonneg_iff)
  moreover have "a div k < n"
  proof (rule ccontr)
    assume "\<not> a div k < n"
    then have "n * k \<le> a div k * k" using a(3) by (simp add: mult_right_mono)
    moreover have "a div k * k \<le> a" using div_mult_mod_eq[of a k] a(3) pos_mod_sign[of k a] by linarith
    ultimately show False using a(2) by simp
  qed
  ultimately show ?thesis by simp
qed

lemma wf_naive_of_us [simp]: "wf_naive (naive_of_us v)"
proof -
  have "0 \<le> v mod us_per_day" "v mod us_per_day < 24 * us_per_hour" using us_unit_rel by simp_all
  moreover have "0 \<le> v mod us_per_hour" "v mod us_per_hour < 60 * us_per_min" using us_unit_rel by simp_all
  moreover have "0 \<le> v mod us_per_min" "v mod us_per_min < 60 * us_per_sec" using us_unit_rel by simp_all
  moreover have "0 \<le> v mod us_per_sec" "v mod us_per_sec < 1000000" by (simp_all add: us_per_sec_def)
  ultimately show ?thesis unfolding wf_naive_def naive_of_us_def using div_bound by simp
qed

lemma divmod_trivial:
  assumes "(0::int) < k" "0 \<le> r" "r < k"
  shows "(q * k + r) div k = q" "(q * k + r) mod k = r"
proof -
  have "(r + q * k) div k = q + r div k" "(r + q * k) mod k = r mod k"
    using assms(1) by (simp_all only: div_mult_self1 mod_mult_self1)
  moreover have "r div k = 0" "r mod k = r" using assms by simp_all
  ultimately show "(q * k + r) div k = q" "(q * k + r) mod k = r" by (simp_all add: add.commute)
qed

lemma naive_of_us_naive_us:
  assumes "wf_naive x"
  shows "naive_of_us (naive_us x) = x"
proof -
  define t2 where "t2 = second x * us_per_sec + microsecond x"
  define t1 where "t1 = minute x * us_per_min + t2"
  define t where "t = hour x * us_per_hour + t1"
  have b2: "0 \<le> t2" "t2 < us_per_min" using assms unfolding t2_def wf_naive_def us_unit_defs by linarith+
  have b1: "0 \<le> t1" "t1 < us_per_hour" using assms b2 unfolding t1_def wf_naive_def us_unit_defs by linarith+
  have b0: "0 \<le> t" "t < us_per_day" using assms b1 unfolding t_def wf_naive_def us_unit_defs by linarith+
  have v: "naive_us x = dord x * us_per_day + t" by (simp add: naive_us_def t_def t1_def t2_def add.assoc)
  have vh: "naive_us x = (dord x * 24 + hour x) * us_per_hour + t1"
    by (simp add: v t_def us_unit_rel algebra_simps)
  have vm: "naive_us x = ((dord x * 24 + hour x) * 60 + minute x) * us_per_min + t2"
    by (simp add: vh t1_def us_unit_rel algebra_simps)
  have vs: "naive_us x = (((dord x * 24 + hour x) * 60 + minute x) * 60 + second x) * us_per_sec + microsecond x"
    by (simp add: vm t2_def us_unit_rel algebra_simps)
  have us: "0 \<le> microsecond x" "microsecond x < us_per_sec" using assms by (simp_all add: wf_naive_def us_per_sec_def)
  have "naive_us x div us_per_day = dord x" "naive_us x mod us_per_day = t"
    unfolding v using b0 divmod_trivial[of us_per_day t] by simp_all
  moreover have "t div us_per_hour = hour x" unfolding t_def using b1 divmod_trivial[of us_per_hour t1] by simp
  moreover have "naive_us x mod us_per_hour = t1" unfolding vh using b1 divmod_trivial[of us_per_hour t1] by simp
  moreover have "t1 div us_per_min = minute x" unfolding t1_def using b2 divmod_trivial[of us_per_min t2] by simp
  moreover have "naive_us x mod us_per_min = t2" unfolding vm using b2 divmod_trivial[of us_per_min t2] by simp
  moreover have "t2 div us_per_sec = second x" unfolding t2_def using us divmod_trivial[of us_per_sec] by simp
  moreover have "naive_us x mod us_per_sec = microsecond x" unfolding vs using us divmod_trivial[of us_per_sec] by simp
  ultimately show ?thesis by (simp add: naive_of_us_def)
qed

lemma us_nonneg [simp]: "0 \<le> us_per_sec" "0 \<le> us_per_min" "0 \<le> us_per_hour" "0 \<le> us_per_day"
  by (simp_all add: us_unit_defs)

definition clock_min :: "aware \<Rightarrow> int" where
  "clock_min a = hour (wall a) * 60 + minute (wall a)"

lemma utc_us_as_utc [simp]: "utc_us (as_utc a) = utc_us a"
  by (simp add: as_utc_def utc_us_def)

lemma utc_us_now_in [simp]: "utc_us (now_in tz u) = u"
  by (simp add: now_in_def utc_us_def)

lemma wf_now_in [simp]: "wf_naive (wall (now_in tz u))"
  by (simp add: now_in_def)

lemma wf_as_utc [simp]: "wf_naive (wall (as_utc a))" "utcoff (as_utc a) = 0"
  by (simp_all add: as_utc_def)

lemma utc_us_add_days [simp]: "utc_us (add_days a k) = utc_us a + k * us_per_day"
  by (simp add: add_days_def utc_us_def naive_us_def algebra_simps)

lemma add_days_fields [simp]:
  "utcoff (add_days a k) = utcoff a" "hour (wall (add_days a k)) = hour (wall a)"
  "minute (wall (add_days a k)) = minute (wall a)" "second (wall (add_days a k)) = second (wall a)"
  "microsecond (wall (add_days a k)) = microsecond (wall a)" "dord (wall (add_days a k)) = dord (wall a) + k"
  by (simp_all add: add_days_def)

lemma add_days_add [simp]: "add_days (add_days a j) k = add_days a (j + k)"
  by (simp add: add_days_def add.assoc)

lemma weekday_add_days [simp]: "weekday (add_days a k) = (weekday a + k) mod 7"
  by (simp add: weekday_def add_days_def mod_add_left_eq mod_add_right_eq algebra_simps)

lemma valid_ymd_fits_c_int:
  assumes "valid_ymd y mo d"
  shows "fits_c_int y \<and> fits_c_int mo \<and> fits_c_int d"
  using assms days_in_month_bounds(2)[of y mo] by (simp add: valid_ymd_def fits_c_int_def)

lemma replace_hm_eq_Inr:
  "replace_hm a h m = Inr r \<longleftrightarrow>
     0 \<le> h \<and> h < 24 \<and> 0 \<le> m \<and> m < 60 \<and>
     r = a\<lparr>wall := (wall a)\<lparr>hour := h, minute := m, second := 0, microsecond := 0\<rparr>\<rparr>"
  by (auto simp: replace_hm_def fits_c_int_def)

lemma replace_hm_fields:
  assumes "replace_hm a h m = Inr r"
  shows "dord (wall r) = dord (wall a)" "hour (wall r) = h" "minute (wall r) = m"
    "second (wall r) = 0" "microsecond (wall r) = 0" "utcoff r = utcoff a" "wf_naive (wall r)"
  using assms by (auto simp: replace_hm_eq_Inr wf_naive_def)

lemma replace_hm_utc:
  assumes "replace_hm a h m = Inr r"
  shows "utc_us r = dord (wall a) * us_per_day + (h * 60 + m) * us_per_min - utcoff a * us_per_min"
  using assms by (auto simp: replace_hm_eq_Inr utc_us_def naive_us_def us_unit_rel algebra_simps)

text \<open>A time set on the same date and offset is at or before the original exactly when
  its hour and minute are: the original's seconds lie inside its minute.\<close>

lemma replace_hm_le:
  assumes "wf_naive (wall a)" and "replace_hm a h m = Inr r"
  shows "aware_le r a \<longleftrightarrow> h * 60 + m \<le> clock_min a"
proof -
  define rest where "rest = second (wall a) * us_per_sec + microsecond (wall a)"
  have rest: "0 \<le> rest" "rest < us_per_min"
    using assms(1) unfolding rest_def wf_naive_def us_unit_defs by linarith+
  have a: "utc_us a = dord (wall a) * us_per_day + clock_min a * us_per_min + rest - utcoff a * us_per_min"
    by (simp add: utc_us_def naive_us_def clock_min_def rest_def us_unit_rel algebra_simps)
  have r: "utc_us r = dord (wall a) * us_per_day + (h * 60 + m) * us_per_min - utcoff a * us_per_min"
    using assms(2) by (rule replace_hm_utc)
  have "(h * 60 + m) * us_per_min \<le> clock_min a * us_per_min + rest \<longleftrightarrow> h * 60 + m \<le> clock_min a"
  proof
    assume le: "(h * 60 + m) * us_per_min \<le> clock_min a * us_per_min + rest"
    show "h * 60 + m \<le> clock_min a"
    proof (rule ccontr)
      assume "\<not> h * 60 + m \<le> clock_min a"
      then have "(clock_min a + 1) * us_per_min \<le> (h * 60 + m) * us_per_min"
        by (intro mult_right_mono) simp_all
      with le rest show False by (simp add: algebra_simps)
    qed
  next
    assume "h * 60 + m \<le> clock_min a"
    then have "(h * 60 + m) * us_per_min \<le> clock_min a * us_per_min" by (intro mult_right_mono) simp_all
    with rest show "(h * 60 + m) * us_per_min \<le> clock_min a * us_per_min + rest" by linarith
  qed
  then show ?thesis by (simp add: aware_le_def a r)
qed
lemma utc_us_with_offset [simp]: "utc_us (with_offset off t) = t"
  by (simp add: with_offset_def utc_us_def)

lemma with_offset_fields [simp]: "wf_naive (wall (with_offset off t))" "utcoff (with_offset off t) = off"
  by (simp_all add: with_offset_def)

lemma now_in_with_offset: "now_in tz u = with_offset (tz u) u"
  by (simp add: now_in_def with_offset_def)

lemma with_offset_utc_us:
  assumes "wf_naive (wall a)"
  shows "with_offset (utcoff a) (utc_us a) = a"
  using assms by (simp add: with_offset_def utc_us_def naive_of_us_naive_us)

lemma wf_add_days [simp]: "wf_naive (wall (add_days a k)) = wf_naive (wall a)"
  by (simp add: wf_naive_def)

lemma mod_day_fields:
  "v mod us_per_day = hour (naive_of_us v) * us_per_hour + minute (naive_of_us v) * us_per_min
     + second (naive_of_us v) * us_per_sec + microsecond (naive_of_us v)"
proof -
  have d: "dord (naive_of_us v) = v div us_per_day" by (simp add: naive_of_us_def)
  have "v div us_per_day * us_per_day + hour (naive_of_us v) * us_per_hour + minute (naive_of_us v) * us_per_min
      + second (naive_of_us v) * us_per_sec + microsecond (naive_of_us v) = v"
    using naive_us_of_us[of v] unfolding naive_us_def d .
  then show ?thesis using div_mult_mod_eq[of v us_per_day] by linarith
qed

text \<open>Two instants less than a day apart that a clock at one offset shows at the same
  time of day are equal.\<close>

lemma same_clock_eq:
  assumes "clock_min (with_offset off t1) = clock_min (with_offset off t2)"
    and "second (wall (with_offset off t1)) = second (wall (with_offset off t2))"
    and "microsecond (wall (with_offset off t1)) = microsecond (wall (with_offset off t2))"
    and "\<bar>t1 - t2\<bar> < us_per_day"
  shows "t1 = t2"
proof -
  let ?v1 = "t1 + off * us_per_min" and ?v2 = "t2 + off * us_per_min"
  have e: "\<And>t. (t + off * us_per_min) mod us_per_day = clock_min (with_offset off t) * us_per_min
      + second (wall (with_offset off t)) * us_per_sec + microsecond (wall (with_offset off t))"
    using mod_day_fields by (simp add: with_offset_def clock_min_def us_unit_rel algebra_simps)
  have "?v1 mod us_per_day = ?v2 mod us_per_day"
    unfolding e using assms(1-3) by simp
  then have "us_per_day dvd (?v1 - ?v2)" by (simp add: mod_eq_dvd_iff)
  then have "us_per_day dvd (t1 - t2)" by (simp add: algebra_simps)
  then obtain k where k: "t1 - t2 = us_per_day * k" by (rule dvdE)
  with assms(4) have "\<bar>k\<bar> < 1"
    by (simp add: abs_mult)
  with k show ?thesis by simp
qed

lemma replace_hm_ok: "0 \<le> h \<Longrightarrow> h < 24 \<Longrightarrow> 0 \<le> m \<Longrightarrow> m < 60 \<Longrightarrow> \<exists>r. replace_hm a h m = Inr r"
  by (simp add: replace_hm_eq_Inr)

lemma replace_hm_window:
  assumes "wf_naive (wall a)" "replace_hm a h m = Inr r"
  shows "utc_us a - us_per_day < utc_us r" "utc_us r < utc_us a + us_per_day"
proof -
  have r: "utc_us r = dord (wall a) * us_per_day + (h * 60 + m) * us_per_min - utcoff a * us_per_min"
    using assms(2) by (rule replace_hm_utc)
  have hm: "0 \<le> h" "h < 24" "0 \<le> m" "m < 60" using assms(2) by (simp_all add: replace_hm_eq_Inr)
  have "utc_us a = naive_us (wall a) - utcoff a * us_per_min" by (simp add: utc_us_def)
  moreover have "dord (wall a) * us_per_day \<le> naive_us (wall a)" "naive_us (wall a) < dord (wall a) * us_per_day + us_per_day"
    using assms(1) unfolding naive_us_def wf_naive_def us_unit_defs by linarith+
  moreover have "0 \<le> (h * 60 + m) * us_per_min" using hm by simp
  moreover have "(h * 60 + m) * us_per_min < 1440 * us_per_min"
    using hm by (intro mult_strict_right_mono) simp_all
  moreover have "us_per_day = 1440 * us_per_min" by (simp add: us_unit_defs)
  ultimately show "utc_us a - us_per_day < utc_us r" "utc_us r < utc_us a + us_per_day"
    using r by linarith+
qed

lemma add_days_zero [simp]: "add_days a 0 = a"
  by (simp add: add_days_def)

lemma weekday_range: "0 \<le> weekday a" "weekday a < 7"
  by (simp_all add: weekday_def)

lemma weekday_with_offset:
  assumes "wf_naive (wall a)"
  shows "weekday (with_offset (utcoff a) (utc_us a)) = weekday a"
  using assms by (simp add: with_offset_utc_us)

lemma now_in_fields [simp]: "utcoff (now_in tz u) = tz u"
  by (simp add: now_in_def)

lemma naive_of_us_add_days:
  "naive_of_us (v + k * us_per_day) = (naive_of_us v)\<lparr>dord := dord (naive_of_us v) + k\<rparr>"
proof -
  have D: "k * us_per_day = (k * 24) * us_per_hour" "k * us_per_day = (k * 1440) * us_per_min"
      "k * us_per_day = (k * 86400) * us_per_sec"
    by (simp_all add: us_unit_defs)
  have "(v + k * us_per_day) div us_per_day = k + v div us_per_day"
    by (rule div_mult_self1) (simp add: us_per_day_def)
  moreover have "(v + k * us_per_day) mod us_per_day = v mod us_per_day" by simp
  moreover have "(v + k * us_per_day) mod us_per_hour = v mod us_per_hour" by (simp only: D(1) mod_mult_self1)
  moreover have "(v + k * us_per_day) mod us_per_min = v mod us_per_min" by (simp only: D(2) mod_mult_self1)
  moreover have "(v + k * us_per_day) mod us_per_sec = v mod us_per_sec" by (simp only: D(3) mod_mult_self1)
  ultimately show ?thesis by (simp add: naive_of_us_def add.commute)
qed

lemma with_offset_add_days: "with_offset off (t + k * us_per_day) = add_days (with_offset off t) k"
proof -
  have "t + k * us_per_day + off * us_per_min = (t + off * us_per_min) + k * us_per_day" by simp
  then show ?thesis unfolding with_offset_def add_days_def by (simp only: naive_of_us_add_days) simp
qed

end
