(* ===== verification/PyCore.thy ===== *)
theory PyCore
  imports Calendar
begin

text \<open>
  The Python runtime that \<^verbatim>\<open>src/chronoreply.py\<close> relies on, as far as its
  statements observe it: the values a task dictionary and the JSON task file hold,
  truthiness, \<^verbatim>\<open>==\<close>, dictionary indexing (\<^verbatim>\<open>d[k]\<close> raising \<^verbatim>\<open>KeyError\<close>),
  \<^verbatim>\<open>d.get(k)\<close> and item assignment, and the string builtins the parser uses:
  \<^verbatim>\<open>str.split()\<close>, \<^verbatim>\<open>str.split(sep)\<close>, \<^verbatim>\<open>str.lower()\<close>, \<^verbatim>\<open>sep.join\<close>,
  substring tests and \<^verbatim>\<open>int(str)\<close>. Characters are bytes, so the Unicode cases
  of \<^verbatim>\<open>lower\<close>, of whitespace and of \<^verbatim>\<open>int\<close> (non-ASCII digits) are not modelled.
\<close>

section \<open>Values\<close>

text \<open>
  A dictionary is an association list with distinct keys, in insertion order (the
  order \<^verbatim>\<open>json.dump\<close> writes). Floats do not occur in the task file and are left out.
\<close>

datatype pyval =
    PNone
  | PBool bool
  | PInt int
  | PStr string
  | PList "pyval list"
  | PDict "(string \<times> pyval) list"
  | PDt aware

type_synonym pydict = "(string \<times> pyval) list"

fun py_truthy :: "pyval \<Rightarrow> bool" where
  "py_truthy PNone = False"
| "py_truthy (PBool b) = b"
| "py_truthy (PInt n) = (n \<noteq> 0)"
| "py_truthy (PStr s) = (s \<noteq> [])"
| "py_truthy (PList xs) = (xs \<noteq> [])"
| "py_truthy (PDict d) = (d \<noteq> [])"
| "py_truthy (PDt a) = True"

text \<open>\<^verbatim>\<open>==\<close>: \<^verbatim>\<open>True == 1\<close>, lists element-wise, dictionaries as mappings
  (order ignored), aware date-times by their UTC instant.\<close>

function py_eq :: "pyval \<Rightarrow> pyval \<Rightarrow> bool" where
  "py_eq PNone PNone = True"
| "py_eq (PBool a) (PBool b) = (a = b)"
| "py_eq (PBool a) (PInt n) = ((if a then 1 else 0) = n)"
| "py_eq (PInt m) (PBool b) = (m = (if b then 1 else 0))"
| "py_eq (PInt m) (PInt n) = (m = n)"
| "py_eq (PStr s) (PStr t) = (s = t)"
| "py_eq (PList xs) (PList ys) =
     (length xs = length ys \<and> (\<forall>i < length xs. py_eq (xs ! i) (ys ! i)))"
| "py_eq (PDict d) (PDict e) =
     (length d = length e \<and>
      (\<forall>i < length d. case map_of e (fst (d ! i)) of None \<Rightarrow> False | Some w \<Rightarrow> py_eq (snd (d ! i)) w))"
| "py_eq (PDt a) (PDt b) = (utc_us a = utc_us b)"
| "py_eq PNone (PBool v) = False" | "py_eq PNone (PInt v) = False" | "py_eq PNone (PStr v) = False"
| "py_eq PNone (PList v) = False" | "py_eq PNone (PDict v) = False" | "py_eq PNone (PDt v) = False"
| "py_eq (PBool u) PNone = False" | "py_eq (PBool u) (PStr v) = False" | "py_eq (PBool u) (PList v) = False"
| "py_eq (PBool u) (PDict v) = False" | "py_eq (PBool u) (PDt v) = False"
| "py_eq (PInt u) PNone = False" | "py_eq (PInt u) (PStr v) = False" | "py_eq (PInt u) (PList v) = False"
| "py_eq (PInt u) (PDict v) = False" | "py_eq (PInt u) (PDt v) = False"
| "py_eq (PStr u) PNone = False" | "py_eq (PStr u) (PBool v) = False" | "py_eq (PStr u) (PInt v) = False"
| "py_eq (PStr u) (PList v) = False" | "py_eq (PStr u) (PDict v) = False" | "py_eq (PStr u) (PDt v) = False"
| "py_eq (PList u) PNone = False" | "py_eq (PList u) (PBool v) = False" | "py_eq (PList u) (PInt v) = False"
| "py_eq (PList u) (PStr v) = False" | "py_eq (PList u) (PDict v) = False" | "py_eq (PList u) (PDt v) = False"
| "py_eq (PDict u) PNone = False" | "py_eq (PDict u) (PBool v) = False" | "py_eq (PDict u) (PInt v) = False"
| "py_eq (PDict u) (PStr v) = False" | "py_eq (PDict u) (PList v) = False" | "py_eq (PDict u) (PDt v) = False"
| "py_eq (PDt u) PNone = False" | "py_eq (PDt u) (PBool v) = False" | "py_eq (PDt u) (PInt v) = False"
| "py_eq (PDt u) (PStr v) = False" | "py_eq (PDt u) (PList v) = False" | "py_eq (PDt u) (PDict v) = False"
  by pat_completeness auto
termination
proof (relation "measure (\<lambda>(a, b). size a)")
  show "wf (measure (\<lambda>(a, b). size a))" by simp
next
  fix xs ys :: "pyval list" and i
  assume "i < length xs"
  then have "size (xs ! i) \<le> size_list size xs" by (rule size_list_estimation'[OF nth_mem]) simp_all
  then show "((xs ! i, ys ! i), PList xs, PList ys) \<in> measure (\<lambda>(a, b). size a)" by simp
next
  fix d e :: pydict and i w
  assume "i < length d"
  then have "d ! i \<in> set d" by simp
  then have "size (snd (d ! i)) \<le> size_list (size_prod (\<lambda>_. 0) size) d"
    by (rule size_list_estimation') (cases "d ! i", simp)
  then show "((snd (d ! i), w), PDict d, PDict e) \<in> measure (\<lambda>(a, b). size a)" by simp
qed

text \<open>\<^verbatim>\<open>x in xs\<close> for a list of values.\<close>

definition py_in :: "pyval \<Rightarrow> pyval list \<Rightarrow> bool" where
  "py_in x xs \<longleftrightarrow> (\<exists>y \<in> set xs. py_eq x y)"

section \<open>Dictionaries\<close>

text \<open>\<^verbatim>\<open>d[k]\<close>.\<close>

definition dict_getitem :: "pydict \<Rightarrow> string \<Rightarrow> pyval py_result" where
  "dict_getitem d k = of_option KeyError (map_of d k)"

text \<open>\<^verbatim>\<open>d.get(k)\<close>.\<close>

definition dict_get :: "pydict \<Rightarrow> string \<Rightarrow> pyval" where
  "dict_get d k = (case map_of d k of None \<Rightarrow> PNone | Some v \<Rightarrow> v)"

text \<open>\<^verbatim>\<open>d[k] = v\<close>: an existing key keeps its position, a new key goes last.\<close>

definition dict_setitem :: "pydict \<Rightarrow> string \<Rightarrow> pyval \<Rightarrow> pydict" where
  "dict_setitem d k v = AList.update k v d"

section \<open>Strings\<close>

text \<open>The ASCII characters \<^verbatim>\<open>str.isspace()\<close> accepts.\<close>

definition is_ws :: "char \<Rightarrow> bool" where
  "is_ws c \<longleftrightarrow> (let n = (of_char c :: nat) in n = 32 \<or> (9 \<le> n \<and> n \<le> 13) \<or> (28 \<le> n \<and> n \<le> 31))"

text \<open>Splitting at every character that satisfies \<open>p\<close>, keeping empty pieces.\<close>

fun split_on :: "(char \<Rightarrow> bool) \<Rightarrow> string \<Rightarrow> string list" where
  "split_on p [] = [[]]"
| "split_on p (c # cs) =
     (let r = split_on p cs in if p c then [] # r else (c # hd r) # tl r)"

text \<open>\<^verbatim>\<open>s.split()\<close>: runs of whitespace separate, no empty pieces.\<close>

definition py_split :: "string \<Rightarrow> string list" where
  "py_split s = filter (\<lambda>w. w \<noteq> []) (split_on is_ws s)"

text \<open>\<^verbatim>\<open>s.split(c)\<close> for a one-character separator.\<close>

definition py_split_sep :: "char \<Rightarrow> string \<Rightarrow> string list" where
  "py_split_sep c s = split_on (\<lambda>x. x = c) s"

definition lower_char :: "char \<Rightarrow> char" where
  "lower_char c =
     (case map_of (zip ''ABCDEFGHIJKLMNOPQRSTUVWXYZ'' ''abcdefghijklmnopqrstuvwxyz'') c of
        Some l \<Rightarrow> l | None \<Rightarrow> c)"

text \<open>\<^verbatim>\<open>s.lower()\<close>.\<close>

definition py_lower :: "string \<Rightarrow> string" where
  "py_lower s = map lower_char s"

text \<open>\<^verbatim>\<open>sep.join(ws)\<close>.\<close>

fun py_join :: "string \<Rightarrow> string list \<Rightarrow> string" where
  "py_join sep [] = []"
| "py_join sep [w] = w"
| "py_join sep (w # ws) = w @ sep @ py_join sep ws"

text \<open>\<^verbatim>\<open>s.strip()\<close>.\<close>

definition py_strip :: "string \<Rightarrow> string" where
  "py_strip s = rev (dropWhile is_ws (rev (dropWhile is_ws s)))"

section \<open>\<^verbatim>\<open>int(s)\<close>\<close>

text \<open>
  \<^verbatim>\<open>int(s)\<close> for a string: surrounding whitespace stripped, an optional sign, then
  decimal digits with single underscores allowed between digits; anything else is a
  \<^verbatim>\<open>ValueError\<close> (\<open>None\<close> here). Leading zeros are accepted (\<^verbatim>\<open>int("09") == 9\<close>).
\<close>

definition is_digit :: "char \<Rightarrow> bool" where
  "is_digit c \<longleftrightarrow> (let n = (of_char c :: nat) in 48 \<le> n \<and> n \<le> 57)"

definition digit_val :: "char \<Rightarrow> int" where
  "digit_val c = int (of_char c :: nat) - 48"

fun digits_acc :: "int \<Rightarrow> string \<Rightarrow> int option" where
  "digits_acc n [] = Some n"
| "digits_acc n (c # cs) =
     (if is_digit c then digits_acc (10 * n + digit_val c) cs
      else if c = CHR ''_'' then
        (case cs of d # ds \<Rightarrow> if is_digit d then digits_acc (10 * n + digit_val d) ds else None
                  | [] \<Rightarrow> None)
      else None)"

fun py_uint :: "string \<Rightarrow> int option" where
  "py_uint [] = None"
| "py_uint (c # cs) = (if is_digit c then digits_acc (digit_val c) cs else None)"

definition py_int_core :: "string \<Rightarrow> int option" where
  "py_int_core s =
     (case s of
        [] \<Rightarrow> None
      | c # cs \<Rightarrow>
          if c = CHR ''-'' then map_option uminus (py_uint cs)
          else if c = CHR ''+'' then py_uint cs
          else py_uint s)"

definition py_int :: "string \<Rightarrow> int option" where
  "py_int s = py_int_core (py_strip s)"

text \<open>The statement \<^verbatim>\<open>a, b = map(int, s.split(c))\<close>: exactly two pieces, both
  integers; otherwise the \<^verbatim>\<open>ValueError\<close> of \<^verbatim>\<open>int\<close> or of the unpacking.\<close>

definition map_int2 :: "char \<Rightarrow> string \<Rightarrow> (int \<times> int) option" where
  "map_int2 c s =
     (case py_split_sep c s of
        [a, b] \<Rightarrow> (case py_int a of None \<Rightarrow> None | Some x \<Rightarrow>
                    (case py_int b of None \<Rightarrow> None | Some y \<Rightarrow> Some (x, y)))
      | _ \<Rightarrow> None)"

section \<open>\<^verbatim>\<open>pytz.timezone\<close>\<close>

text \<open>
  \<^verbatim>\<open>pytz.timezone(name)\<close> against a zone database \<open>db\<close> (the zone names pytz
  knows, case-insensitively, with their offset functions): \<^verbatim>\<open>None\<close> and unknown
  names raise \<^verbatim>\<open>UnknownTimeZoneError\<close>; a non-string has no \<^verbatim>\<open>upper\<close>.
\<close>

type_synonym tzdb = "string \<Rightarrow> tzinfo option"

definition py_timezone :: "tzdb \<Rightarrow> pyval \<Rightarrow> tzinfo py_result" where
  "py_timezone db v =
     (case v of
        PNone \<Rightarrow> Inl UnknownTimeZoneError
      | PStr s \<Rightarrow> of_option UnknownTimeZoneError (db s)
      | _ \<Rightarrow> Inl AttributeError)"

section \<open>Evaluation rules\<close>

lemma dict_getitem_simps [simp, py_simps]:
  "map_of d k = Some v \<Longrightarrow> dict_getitem d k = Inr v"
  "map_of d k = None \<Longrightarrow> dict_getitem d k = Inl KeyError"
  by (simp_all add: dict_getitem_def)

lemma dict_get_simps [simp, py_simps]:
  "map_of d k = Some v \<Longrightarrow> dict_get d k = v"
  "map_of d k = None \<Longrightarrow> dict_get d k = PNone"
  by (simp_all add: dict_get_def)

lemma py_timezone_str [simp, py_simps]: "py_timezone db (PStr s) = of_option UnknownTimeZoneError (db s)"
  by (simp add: py_timezone_def)

lemma py_eq_str_iff [simp]: "py_eq v (PStr s) \<longleftrightarrow> v = PStr s"
  by (cases v) simp_all

text \<open>The definitions that evaluate string literals, for closed instances.\<close>

lemmas py_eval = map_int2_def py_split_sep_def py_int_def py_strip_def py_int_core_def is_ws_def
  is_digit_def digit_val_def py_lower_def lower_char_def py_split_def

end
