(* ===== verification/Recurrence.thy ===== *)
theory Recurrence
  imports PyCore
begin

text \<open>
  \<^verbatim>\<open>ChronoReply._calculate_next_repeat\<close> (\<^verbatim>\<open>src/chronoreply.py\<close>, lines
  214--249): the next firing of a repeating task, computed from the task dictionary's
  \<^verbatim>\<open>timezone\<close>, \<^verbatim>\<open>repeat_value\<close> (\<^verbatim>\<open>"HH:MM"\<close>), \<^verbatim>\<open>repeat_type\<close>
  (\<^verbatim>\<open>"harian"\<close>, daily, or \<^verbatim>\<open>"mingguan"\<close>, weekly) and \<^verbatim>\<open>repeat_day\<close>
  (an Indonesian weekday name), at the clock reading \<open>u\<close> taken by
  \<^verbatim>\<open>datetime.now(tz)\<close>. The same routine seeds a new repeating task
  (\<^verbatim>\<open>_kirim_repeat\<close>) and reschedules a fired one (\<^verbatim>\<open>_scheduler_loop\<close>).
  Its result is an exception, \<^verbatim>\<open>None\<close> or a UTC date-time.
\<close>

section \<open>Definitions\<close>

text \<open>The weekday names, Monday first, as in \<^verbatim>\<open>datetime.weekday()\<close>.\<close>

definition hari :: "string list" where
  "hari = [''senin'', ''selasa'', ''rabu'', ''kamis'', ''jumat'', ''sabtu'', ''minggu'']"

text \<open>\<^verbatim>\<open>value.lower()\<close> on a dictionary value.\<close>

definition lower_val :: "pyval \<Rightarrow> string py_result" where
  "lower_val v = (case v of PStr s \<Rightarrow> Inr (py_lower s) | _ \<Rightarrow> Inl AttributeError)"

text \<open>\<^verbatim>\<open>hour, minute = map(int, value.split(":"))\<close> on a dictionary value.\<close>

definition hm_val :: "pyval \<Rightarrow> (int \<times> int) py_result" where
  "hm_val v = (case v of PStr s \<Rightarrow> of_option ValueError (map_int2 CHR '':'' s) | _ \<Rightarrow> Inl AttributeError)"

text \<open>The daily branch, lines 223--226.\<close>

definition next_daily :: "aware \<Rightarrow> int \<Rightarrow> int \<Rightarrow> aware py_result" where
  "next_daily now h m =
     pbind (replace_hm now h m) (\<lambda>next_dt.
       Inr (as_utc (if aware_le next_dt now then add_days next_dt 1 else next_dt)))"

text \<open>The weekly branch after the day-name check, lines 236--247.\<close>

definition next_weekly :: "aware \<Rightarrow> int \<Rightarrow> int \<Rightarrow> int \<Rightarrow> aware py_result" where
  "next_weekly now target h m =
     (let current = weekday now;
          diff = (if target - current < 0 then target - current + 7 else target - current)
      in pbind (replace_hm (add_days now diff) h m) (\<lambda>next_dt.
           Inr (as_utc (if diff = 0 \<and> aware_le next_dt now then add_days next_dt 7 else next_dt))))"

definition calculate_next_repeat :: "tzdb \<Rightarrow> instant \<Rightarrow> pydict \<Rightarrow> aware option py_result" where
  "calculate_next_repeat db u task =
     pbind (pbind (dict_getitem task ''timezone'') (py_timezone db)) (\<lambda>tz.
     (let now = now_in tz u in
      pbind (pbind (dict_getitem task ''repeat_value'') hm_val) (\<lambda>(h, m).
      pbind (dict_getitem task ''repeat_type'') (\<lambda>rt.
        if py_eq rt (PStr ''harian'') then pbind (next_daily now h m) (\<lambda>r. Inr (Some r))
        else if py_eq rt (PStr ''mingguan'') then
          pbind (pbind (dict_getitem task ''repeat_day'') lower_val) (\<lambda>day_name.
            if day_name \<notin> set hari then Inr None
            else pbind (next_weekly now (int (py_index hari day_name)) h m) (\<lambda>r. Inr (Some r)))
        else Inr None))))"

section \<open>Properties\<close>

lemma next_daily_spec:
  assumes wf: "wf_naive (wall now)" and hm: "0 \<le> h" "h < 24" "0 \<le> m" "m < 60"
  shows "\<exists>r. next_daily now h m = Inr r \<and> utc_us now < utc_us r \<and> utc_us r \<le> utc_us now + us_per_day
     \<and> clock_min (with_offset (utcoff now) (utc_us r)) = h * 60 + m
     \<and> second (wall (with_offset (utcoff now) (utc_us r))) = 0
     \<and> microsecond (wall (with_offset (utcoff now) (utc_us r))) = 0"
proof -
  obtain n where n: "replace_hm now h m = Inr n" using replace_hm_ok[OF hm] by blast
  have f: "utcoff n = utcoff now" "wf_naive (wall n)" "hour (wall n) = h" "minute (wall n) = m"
      "second (wall n) = 0" "microsecond (wall n) = 0" using replace_hm_fields[OF n] by simp_all
  have w: "utc_us now - us_per_day < utc_us n" "utc_us n < utc_us now + us_per_day"
    using replace_hm_window[OF wf n] by simp_all
  show ?thesis
  proof (cases "aware_le n now")
    case True
    let ?r = "as_utc (add_days n 1)"
    have "with_offset (utcoff now) (utc_us ?r) = add_days n 1"
      using with_offset_utc_us[of "add_days n 1"] f by simp
    moreover have "next_daily now h m = Inr ?r" using True n by (simp add: next_daily_def)
    ultimately show ?thesis using True w f by (simp add: aware_le_def clock_min_def)
  next
    case False
    let ?r = "as_utc n"
    have "with_offset (utcoff now) (utc_us ?r) = n"
      using with_offset_utc_us[of n] f by simp
    moreover have "next_daily now h m = Inr ?r" using False n by (simp add: next_daily_def)
    ultimately show ?thesis using False w f by (simp add: aware_le_def clock_min_def)
  qed
qed

lemma next_weekly_spec:
  assumes wf: "wf_naive (wall now)" and hm: "0 \<le> h" "h < 24" "0 \<le> m" "m < 60"
    and tg: "0 \<le> target" "target < 7"
  shows "\<exists>r. next_weekly now target h m = Inr r \<and> utc_us now < utc_us r
     \<and> utc_us r \<le> utc_us now + 7 * us_per_day
     \<and> weekday (with_offset (utcoff now) (utc_us r)) = target
     \<and> clock_min (with_offset (utcoff now) (utc_us r)) = h * 60 + m
     \<and> second (wall (with_offset (utcoff now) (utc_us r))) = 0
     \<and> microsecond (wall (with_offset (utcoff now) (utc_us r))) = 0"
proof -
  define diff where "diff = (if target - weekday now < 0 then target - weekday now + 7 else target - weekday now)"
  have d: "0 \<le> diff" "diff < 7" "(weekday now + diff) mod 7 = target"
    using tg weekday_range[of now] by (auto simp: diff_def)
  obtain n where n: "replace_hm (add_days now diff) h m = Inr n" using replace_hm_ok[OF hm] by blast
  have f: "utcoff n = utcoff now" "wf_naive (wall n)" "hour (wall n) = h" "minute (wall n) = m"
      "second (wall n) = 0" "microsecond (wall n) = 0"
    using replace_hm_fields[OF n] wf by simp_all
  have "weekday n = weekday (add_days now diff)" using replace_hm_fields(1)[OF n] by (simp add: weekday_def)
  with d(3) have f7: "weekday n = target" by simp
  have w: "utc_us now + diff * us_per_day - us_per_day < utc_us n" "utc_us n < utc_us now + diff * us_per_day + us_per_day"
    using replace_hm_window[of "add_days now diff" h m n] wf n by simp_all
  have res: "next_weekly now target h m =
      Inr (as_utc (if diff = 0 \<and> aware_le n now then add_days n 7 else n))"
    unfolding next_weekly_def Let_def diff_def[symmetric] using n by simp
  show ?thesis
  proof (cases "diff = 0 \<and> aware_le n now")
    case True
    have "with_offset (utcoff now) (utc_us (as_utc (add_days n 7))) = add_days n 7"
      using with_offset_utc_us[of "add_days n 7"] f by simp
    moreover have "weekday (add_days n 7) = target" using f7 tg by simp
    ultimately show ?thesis using True res w f
      by (simp add: aware_le_def clock_min_def)
  next
    case False
    have wn: "with_offset (utcoff now) (utc_us (as_utc n)) = n"
      using with_offset_utc_us[of n] f by simp
    have "utc_us now < utc_us n"
    proof (cases "diff = 0")
      case True with False show ?thesis by (simp add: aware_le_def)
    next
      case nz: False
      with d(1) have "1 * us_per_day \<le> diff * us_per_day" by (intro mult_right_mono) simp_all
      with w show ?thesis by linarith
    qed
    moreover have "utc_us n \<le> utc_us now + 7 * us_per_day"
    proof -
      have "diff * us_per_day + us_per_day \<le> 7 * us_per_day"
        using d(2) by (simp add: distrib_right[symmetric])
      with w show ?thesis by linarith
    qed
    ultimately show ?thesis using False res wn f f7 by (simp add: clock_min_def)
  qed
qed

lemma calculate_next_repeat_unfold:
  assumes "map_of task ''timezone'' = Some (PStr z)" "db z = Some tz"
    "map_of task ''repeat_value'' = Some (PStr s)" "map_int2 CHR '':'' s = Some (h, m)"
    "map_of task ''repeat_type'' = Some rt"
  shows "calculate_next_repeat db u task =
    (if rt = PStr ''harian'' then pbind (next_daily (now_in tz u) h m) (\<lambda>r. Inr (Some r))
     else if rt = PStr ''mingguan'' then
       pbind (pbind (dict_getitem task ''repeat_day'') lower_val) (\<lambda>day_name.
         if day_name \<notin> set hari then Inr None
         else pbind (next_weekly (now_in tz u) (int (py_index hari day_name)) h m) (\<lambda>r. Inr (Some r)))
     else Inr None)"
  using assms by (simp add: calculate_next_repeat_def hm_val_def)

lemma daily_next_spec:
  assumes "map_of task ''timezone'' = Some (PStr z)" "db z = Some tz"
    and "map_of task ''repeat_value'' = Some (PStr s)" "map_int2 CHR '':'' s = Some (h, m)"
    and "0 \<le> h" "h < 24" "0 \<le> m" "m < 60"
    and "map_of task ''repeat_type'' = Some (PStr ''harian'')"
  shows "\<exists>r. calculate_next_repeat db u task = Inr (Some r)
     \<and> u < utc_us r \<and> utc_us r \<le> u + us_per_day
     \<and> clock_min (with_offset (tz u) (utc_us r)) = h * 60 + m
     \<and> second (wall (with_offset (tz u) (utc_us r))) = 0
     \<and> microsecond (wall (with_offset (tz u) (utc_us r))) = 0"
  using next_daily_spec[of "now_in tz u" h m] calculate_next_repeat_unfold[of task z db tz s h m _ u, OF assms(1-4,9)] assms(5-8)
  by auto

text \<open>C1: For a daily task with a known zone and a valid HH:MM, _calculate_next_repeat returns an instant strictly after the clock reading and at most one day later, showing HH:MM:00.000000 on a clock at the offset in force at that reading.\<close>

theorem calculate_next_repeat_daily:
  assumes "map_of task ''timezone'' = Some (PStr z)" "db z = Some tz"
    and "map_of task ''repeat_value'' = Some (PStr s)" "map_int2 CHR '':'' s = Some (h, m)"
    and "0 \<le> h" "h < 24" "0 \<le> m" "m < 60"
    and "map_of task ''repeat_type'' = Some (PStr ''harian'')"
  shows "\<exists>r. calculate_next_repeat db u task = Inr (Some r)
     \<and> u < utc_us r \<and> utc_us r \<le> u + us_per_day
     \<and> clock_min (with_offset (tz u) (utc_us r)) = h * 60 + m
     \<and> second (wall (with_offset (tz u) (utc_us r))) = 0
     \<and> microsecond (wall (with_offset (tz u) (utc_us r))) = 0"
  using assms by (rule daily_next_spec)

lemma lower_day_index:
  "py_lower d \<in> set hari \<Longrightarrow> 0 \<le> int (py_index hari (py_lower d)) \<and> int (py_index hari (py_lower d)) < 7"
  using py_index_less[of "py_lower d" hari] by (simp add: hari_def)

text \<open>C2: For a weekly task with a valid Indonesian day name and HH:MM, _calculate_next_repeat returns an instant strictly after the clock reading, at most seven days later, on the named weekday at HH:MM:00 in the offset in force at that reading.\<close>

theorem calculate_next_repeat_weekly:
  assumes "map_of task ''timezone'' = Some (PStr z)" "db z = Some tz"
    and "map_of task ''repeat_value'' = Some (PStr s)" "map_int2 CHR '':'' s = Some (h, m)"
    and "0 \<le> h" "h < 24" "0 \<le> m" "m < 60"
    and "map_of task ''repeat_type'' = Some (PStr ''mingguan'')"
    and "map_of task ''repeat_day'' = Some (PStr d)" "py_lower d \<in> set hari"
  shows "\<exists>r. calculate_next_repeat db u task = Inr (Some r)
     \<and> u < utc_us r \<and> utc_us r \<le> u + 7 * us_per_day
     \<and> weekday (with_offset (tz u) (utc_us r)) = int (py_index hari (py_lower d))
     \<and> clock_min (with_offset (tz u) (utc_us r)) = h * 60 + m
     \<and> second (wall (with_offset (tz u) (utc_us r))) = 0
     \<and> microsecond (wall (with_offset (tz u) (utc_us r))) = 0"
proof -
  have t: "0 \<le> int (py_index hari (py_lower d))" "int (py_index hari (py_lower d)) < 7"
    using lower_day_index[OF assms(11)] by simp_all
  show ?thesis
    using next_weekly_spec[of "now_in tz u" h m "int (py_index hari (py_lower d))"] t
      calculate_next_repeat_unfold[of task z db tz s h m _ u, OF assms(1-4,9)] assms(5-8,10,11)
    by (auto simp: lower_val_def)
qed

lemma weekly_same_day:
  assumes "map_of task ''timezone'' = Some (PStr z)" "db z = Some tz"
    and "map_of task ''repeat_value'' = Some (PStr s)" "map_int2 CHR '':'' s = Some (h, m)"
    and "map_of task ''repeat_type'' = Some (PStr ''mingguan'')"
    and "map_of task ''repeat_day'' = Some (PStr d)" "py_lower d \<in> set hari"
    and "weekday (now_in tz u) = int (py_index hari (py_lower d))"
    and "replace_hm (now_in tz u) h m = Inr today"
  shows "calculate_next_repeat db u task =
     Inr (Some (as_utc (if h * 60 + m \<le> clock_min (now_in tz u) then add_days today 7 else today)))"
proof -
  have "aware_le today (now_in tz u) \<longleftrightarrow> h * 60 + m \<le> clock_min (now_in tz u)"
    using replace_hm_le[of "now_in tz u" h m today] assms(9) by simp
  then show ?thesis
    using calculate_next_repeat_unfold[of task z db tz s h m _ u, OF assms(1-5)] assms(6-9)
    by (simp add: lower_val_def next_weekly_def Let_def)
qed

text \<open>C3: A weekly task for today's weekday whose time has already passed (or is now) is scheduled exactly seven days after today at that time.\<close>

theorem weekly_same_day_passed:
  assumes "map_of task ''timezone'' = Some (PStr z)" "db z = Some tz"
    and "map_of task ''repeat_value'' = Some (PStr s)" "map_int2 CHR '':'' s = Some (h, m)"
    and "map_of task ''repeat_type'' = Some (PStr ''mingguan'')"
    and "map_of task ''repeat_day'' = Some (PStr d)" "py_lower d \<in> set hari"
    and "weekday (now_in tz u) = int (py_index hari (py_lower d))"
    and "replace_hm (now_in tz u) h m = Inr today"
    and "h * 60 + m \<le> clock_min (now_in tz u)"
  shows "calculate_next_repeat db u task = Inr (Some (as_utc (add_days today 7)))
    \<and> utc_us (as_utc (add_days today 7)) = utc_us today + 7 * us_per_day"
  using weekly_same_day[of task z db tz s h m d u today, OF assms(1-9)] assms(10) by simp

text \<open>C4: A weekly task for today's weekday whose time is still ahead is scheduled today at that time.\<close>

theorem weekly_same_day_not_passed:
  assumes "map_of task ''timezone'' = Some (PStr z)" "db z = Some tz"
    and "map_of task ''repeat_value'' = Some (PStr s)" "map_int2 CHR '':'' s = Some (h, m)"
    and "map_of task ''repeat_type'' = Some (PStr ''mingguan'')"
    and "map_of task ''repeat_day'' = Some (PStr d)" "py_lower d \<in> set hari"
    and "weekday (now_in tz u) = int (py_index hari (py_lower d))"
    and "replace_hm (now_in tz u) h m = Inr today"
    and "clock_min (now_in tz u) < h * 60 + m"
  shows "calculate_next_repeat db u task = Inr (Some (as_utc today))"
  using weekly_same_day[of task z db tz s h m d u today, OF assms(1-9)] assms(10) by simp

text \<open>C5: When a daily task that fired at its HH:MM instant is rescheduled less than a day later under the same offset, its next firing is exactly 24 hours after the previous one.\<close>

theorem daily_refire_one_day_later:
  assumes "map_of task ''timezone'' = Some (PStr z)" "db z = Some tz"
    and "map_of task ''repeat_value'' = Some (PStr s)" "map_int2 CHR '':'' s = Some (h, m)"
    and "0 \<le> h" "h < 24" "0 \<le> m" "m < 60"
    and "map_of task ''repeat_type'' = Some (PStr ''harian'')"
    and "clock_min (with_offset (tz u) prev) = h * 60 + m"
    and "second (wall (with_offset (tz u) prev)) = 0" "microsecond (wall (with_offset (tz u) prev)) = 0"
    and "prev \<le> u" "u < prev + us_per_day"
  shows "\<exists>r. calculate_next_repeat db u task = Inr (Some r) \<and> utc_us r = prev + us_per_day"
proof -
  obtain r where r: "calculate_next_repeat db u task = Inr (Some r)" "u < utc_us r" "utc_us r \<le> u + us_per_day"
      "clock_min (with_offset (tz u) (utc_us r)) = h * 60 + m"
      "second (wall (with_offset (tz u) (utc_us r))) = 0" "microsecond (wall (with_offset (tz u) (utc_us r))) = 0"
    using daily_next_spec[of task z db tz s h m u, OF assms(1-9)] by blast
  have p: "with_offset (tz u) (prev + 1 * us_per_day) = add_days (with_offset (tz u) prev) 1"
    by (rule with_offset_add_days)
  have "utc_us r = prev + us_per_day"
  proof (rule same_clock_eq[of "tz u"])
    show "clock_min (with_offset (tz u) (utc_us r)) = clock_min (with_offset (tz u) (prev + us_per_day))"
      using p r(4) assms(10) by (simp add: clock_min_def)
    show "second (wall (with_offset (tz u) (utc_us r))) = second (wall (with_offset (tz u) (prev + us_per_day)))"
      using p r(5) assms(11) by simp
    show "microsecond (wall (with_offset (tz u) (utc_us r))) = microsecond (wall (with_offset (tz u) (prev + us_per_day)))"
      using p r(6) assms(12) by simp
    show "\<bar>utc_us r - (prev + us_per_day)\<bar> < us_per_day" using r(2,3) assms(13,14) by linarith
  qed
  with r(1) show ?thesis by blast
qed

text \<open>C6: A weekly task whose repeat_day is not one of senin..minggu (after lower()) makes _calculate_next_repeat return None rather than raise.\<close>

theorem next_repeat_unknown_day:
  assumes "map_of task ''timezone'' = Some (PStr z)" "db z = Some tz"
    and "map_of task ''repeat_value'' = Some (PStr s)" "map_int2 CHR '':'' s = Some (h, m)"
    and "map_of task ''repeat_type'' = Some (PStr ''mingguan'')"
    and "map_of task ''repeat_day'' = Some (PStr d)" "py_lower d \<notin> set hari"
  shows "calculate_next_repeat db u task = Inr None"
  using calculate_next_repeat_unfold[of task z db tz s h m _ u, OF assms(1-5)] assms(6,7) by (simp add: lower_val_def)

text \<open>C7: A repeat_value whose hour or minute is out of range makes _calculate_next_repeat raise instead of returning None: OverflowError (from the C int conversion of datetime.replace's arguments) when the hour or the minute does not fit a C int, ValueError (from the range check) otherwise.\<close>

theorem next_repeat_bad_time:
  assumes "map_of task ''timezone'' = Some (PStr z)" "db z = Some tz"
    and "map_of task ''repeat_value'' = Some (PStr s)" "map_int2 CHR '':'' s = Some (h, m)"
    and "map_of task ''repeat_type'' = Some (PStr ''harian'')"
    and "\<not> (0 \<le> h \<and> h < 24 \<and> 0 \<le> m \<and> m < 60)"
  shows "calculate_next_repeat db u task = Inl (if fits_c_int h \<and> fits_c_int m then ValueError else OverflowError)"
  using calculate_next_repeat_unfold[of task z db tz s h m _ u, OF assms(1-5)] assms(6) by (simp add: next_daily_def replace_hm_def fits_c_int_def)

section \<open>Witnesses\<close>

text \<open>A zone database with one zone, Asia/Jakarta at UTC+7 (420 minutes), and the
  clock reading Monday 2025-11-10 10:00 in Jakarta (03:00 UTC), as microseconds.\<close>

abbreviation wib_db :: tzdb where
  "wib_db \<equiv> (\<lambda>s. if s = ''Asia/Jakarta'' then Some (\<lambda>_. 420) else None)"

abbreviation mon_10am :: instant where
  "mon_10am \<equiv> 63898426800000000"

abbreviation daily_task :: "string \<Rightarrow> pydict" where
  "daily_task t \<equiv> [(''timezone'', PStr ''Asia/Jakarta''), (''repeat_value'', PStr t), (''repeat_type'', PStr ''harian'')]"

abbreviation weekly_task :: "string \<Rightarrow> string \<Rightarrow> pydict" where
  "weekly_task d t \<equiv> [(''timezone'', PStr ''Asia/Jakarta''), (''repeat_value'', PStr t),
     (''repeat_type'', PStr ''mingguan''), (''repeat_day'', PStr d)]"

abbreviation at_hm :: "aware \<Rightarrow> int \<Rightarrow> int \<Rightarrow> aware" where
  "at_hm a h m \<equiv> a\<lparr>wall := (wall a)\<lparr>hour := h, minute := m, second := 0, microsecond := 0\<rparr>\<rparr>"

lemma mon_10am_clock: "weekday (now_in (\<lambda>_. 420) mon_10am) = 0" "clock_min (now_in (\<lambda>_. 420) mon_10am) = 600"
  by (simp_all add: now_in_def weekday_def clock_min_def naive_of_us_def us_unit_defs)

theorem calculate_next_repeat_daily_witness:
  "\<exists>r. calculate_next_repeat wib_db mon_10am (daily_task ''09:30'') = Inr (Some r)
     \<and> mon_10am < utc_us r \<and> utc_us r \<le> mon_10am + us_per_day
     \<and> clock_min (with_offset 420 (utc_us r)) = 570
     \<and> second (wall (with_offset 420 (utc_us r))) = 0 \<and> microsecond (wall (with_offset 420 (utc_us r))) = 0"
  using calculate_next_repeat_daily[of "daily_task ''09:30''" "''Asia/Jakarta''" wib_db "\<lambda>_. 420" "''09:30''" 9 30 mon_10am]
  by (simp add: py_eval)

theorem calculate_next_repeat_weekly_witness:
  "\<exists>r. calculate_next_repeat wib_db mon_10am (weekly_task ''Rabu'' ''08:15'') = Inr (Some r)
     \<and> mon_10am < utc_us r \<and> utc_us r \<le> mon_10am + 7 * us_per_day
     \<and> weekday (with_offset 420 (utc_us r)) = 2
     \<and> clock_min (with_offset 420 (utc_us r)) = 495
     \<and> second (wall (with_offset 420 (utc_us r))) = 0 \<and> microsecond (wall (with_offset 420 (utc_us r))) = 0"
  using calculate_next_repeat_weekly[of "weekly_task ''Rabu'' ''08:15''" "''Asia/Jakarta''" wib_db "\<lambda>_. 420"
      "''08:15''" 8 15 "''Rabu''" mon_10am]
  by (simp add: py_eval hari_def)

theorem weekly_same_day_passed_witness:
  "calculate_next_repeat wib_db mon_10am (weekly_task ''Senin'' ''09:00'')
     = Inr (Some (as_utc (add_days (at_hm (now_in (\<lambda>_. 420) mon_10am) 9 0) 7)))"
  using weekly_same_day_passed[of "weekly_task ''Senin'' ''09:00''" "''Asia/Jakarta''" wib_db "\<lambda>_. 420"
      "''09:00''" 9 0 "''Senin''" mon_10am "at_hm (now_in (\<lambda>_. 420) mon_10am) 9 0"] mon_10am_clock
  by (simp add: py_eval hari_def replace_hm_def fits_c_int_def)

theorem weekly_same_day_not_passed_witness:
  "calculate_next_repeat wib_db mon_10am (weekly_task ''senin'' ''11:00'')
     = Inr (Some (as_utc (at_hm (now_in (\<lambda>_. 420) mon_10am) 11 0)))"
  using weekly_same_day_not_passed[of "weekly_task ''senin'' ''11:00''" "''Asia/Jakarta''" wib_db "\<lambda>_. 420"
      "''11:00''" 11 0 "''senin''" mon_10am "at_hm (now_in (\<lambda>_. 420) mon_10am) 11 0"] mon_10am_clock
  by (simp add: py_eval hari_def replace_hm_def fits_c_int_def)

text \<open>The daily 09:00 task fired at 09:00 and is rescheduled 30 seconds later.\<close>

theorem daily_refire_one_day_later_witness:
  "\<exists>r. calculate_next_repeat wib_db 63898423230000000 (daily_task ''09:00'') = Inr (Some r)
     \<and> utc_us r = 63898423200000000 + us_per_day"
  using daily_refire_one_day_later[of "daily_task ''09:00''" "''Asia/Jakarta''" wib_db "\<lambda>_. 420" "''09:00''" 9 0
      63898423230000000 63898423200000000]
  by (simp add: py_eval with_offset_def clock_min_def naive_of_us_def us_unit_defs)

theorem next_repeat_unknown_day_witness:
  "calculate_next_repeat wib_db mon_10am (weekly_task ''monday'' ''09:00'') = Inr None"
  using next_repeat_unknown_day[of "weekly_task ''monday'' ''09:00''" "''Asia/Jakarta''" wib_db "\<lambda>_. 420"
      "''09:00''" 9 0 "''monday''" mon_10am]
  by (simp add: py_eval hari_def)

theorem next_repeat_bad_time_witness:
  "calculate_next_repeat wib_db mon_10am (daily_task ''25:00'') = Inl ValueError
   \<and> calculate_next_repeat wib_db mon_10am (daily_task ''2147483648:00'') = Inl OverflowError"
  using next_repeat_bad_time[of "daily_task ''25:00''" "''Asia/Jakarta''" wib_db "\<lambda>_. 420" "''25:00''" 25 0 mon_10am]
    next_repeat_bad_time[of "daily_task ''2147483648:00''" "''Asia/Jakarta''" wib_db "\<lambda>_. 420" "''2147483648:00''"
      2147483648 0 mon_10am]
  by (simp add: py_eval fits_c_int_def)

end
