(* ===== verification/TimeParser.thy ===== *)
theory TimeParser
  imports Recurrence
begin

text \<open>
  \<^verbatim>\<open>parse_time_input\<close> and its helper \<^verbatim>\<open>get_next_day\<close> (\<^verbatim>\<open>src/chronoreply.py\<close>,
  lines 34--102): a time expression, read against \<^verbatim>\<open>datetime.now(default_tz)\<close> at the
  clock reading \<open>u\<close>, becomes a UTC date-time or \<^verbatim>\<open>None\<close>. Three grammars are tried
  in order on the whitespace-separated tokens: \<^verbatim>\<open>HH:MM\<close>, \<^verbatim>\<open><hari> HH:MM\<close> and
  \<^verbatim>\<open>DD-MM HH:MM\<close>. The bare \<^verbatim>\<open>except\<close> turns every exception into \<^verbatim>\<open>None\<close>,
  so the model's result is an option.
\<close>

section \<open>Definitions\<close>

text \<open>\<^verbatim>\<open>get_next_day(target_day_name, hour, minute)\<close>, a closure over \<^verbatim>\<open>now_local\<close>;
  its result is still in the local offset (the caller converts it to UTC).\<close>

definition get_next_day :: "aware \<Rightarrow> string \<Rightarrow> int \<Rightarrow> int \<Rightarrow> aware option py_result" where
  "get_next_day now_local target_day_name h m =
     (if target_day_name \<notin> set hari then Inr None
      else
        (let target_weekday = int (py_index hari target_day_name);
             current_weekday = weekday now_local;
             days_ahead = (if target_weekday - current_weekday < 0
                           then target_weekday - current_weekday + 7 else target_weekday - current_weekday)
         in pbind (replace_hm (add_days now_local days_ahead) h m) (\<lambda>target_dt.
              Inr (Some (if days_ahead = 0 \<and> aware_le target_dt now_local
                         then add_days target_dt 7 else target_dt)))))"

text \<open>Case 1, \<^verbatim>\<open>HH:MM\<close> (lines 72--77).\<close>

definition parse_hhmm :: "aware \<Rightarrow> string \<Rightarrow> aware option" where
  "parse_hhmm now_local tok =
     (case map_int2 CHR '':'' tok of
        None \<Rightarrow> None
      | Some (h, m) \<Rightarrow>
          (case replace_hm now_local h m of
             Inl _ \<Rightarrow> None
           | Inr dt \<Rightarrow> Some (as_utc (if aware_le dt now_local then add_days dt 1 else dt))))"

text \<open>Case 2, \<^verbatim>\<open><hari> HH:MM\<close> (lines 80--85), for a day name already in the list.\<close>

definition parse_day_hhmm :: "aware \<Rightarrow> string \<Rightarrow> string \<Rightarrow> aware option" where
  "parse_day_hhmm now_local day tok =
     (case map_int2 CHR '':'' tok of
        None \<Rightarrow> None
      | Some (h, m) \<Rightarrow>
          (case get_next_day now_local day h m of
             Inr (Some dt) \<Rightarrow> Some (as_utc dt)
           | _ \<Rightarrow> None))"

text \<open>Case 3, \<^verbatim>\<open>DD-MM HH:MM\<close> (lines 88--97): this year, else the next one.\<close>

definition parse_ddmm_hhmm :: "aware \<Rightarrow> string \<Rightarrow> string \<Rightarrow> aware option" where
  "parse_ddmm_hhmm now_local dm tok =
     (case map_int2 CHR ''-'' dm of
        None \<Rightarrow> None
      | Some (day, month) \<Rightarrow>
          (case map_int2 CHR '':'' tok of
             None \<Rightarrow> None
           | Some (h, m) \<Rightarrow>
               (let year = year_of now_local in
                case replace_ymd_hm now_local year month day h m of
                  Inl _ \<Rightarrow> None
                | Inr dt \<Rightarrow>
                    if aware_le dt now_local then
                      (case replace_ymd_hm dt (year + 1) month day h m of
                         Inl _ \<Rightarrow> None
                       | Inr dt' \<Rightarrow> Some (as_utc dt'))
                    else Some (as_utc dt))))"

definition parse_time_input :: "tzinfo \<Rightarrow> instant \<Rightarrow> string \<Rightarrow> aware option" where
  "parse_time_input default_tz u time_input =
     (let now_local = now_in default_tz u;
          parts = py_split time_input
      in if length parts = 1 \<and> CHR '':'' \<in> set (parts ! 0) then parse_hhmm now_local (parts ! 0)
         else if length parts = 2 \<and> py_lower (parts ! 0) \<in> set hari
           then parse_day_hhmm now_local (py_lower (parts ! 0)) (parts ! 1)
         else if length parts = 2 \<and> CHR ''-'' \<in> set (parts ! 0) \<and> CHR '':'' \<in> set (parts ! 1)
           then parse_ddmm_hhmm now_local (parts ! 0) (parts ! 1)
         else None)"

section \<open>Parser facts\<close>

text \<open>Each grammar reduces to the recurrence helpers of the Recurrence theory or to a date-time built by \<open>replace\<close>.\<close>

lemma parse_hhmm_next_daily:
  "parse_hhmm now w = (case map_int2 CHR '':'' w of None \<Rightarrow> None
     | Some (h, m) \<Rightarrow> (case next_daily now h m of Inl _ \<Rightarrow> None | Inr r \<Rightarrow> Some r))"
  by (auto simp: parse_hhmm_def next_daily_def split: option.splits sum.splits)

lemma get_next_day_next_weekly:
  assumes "get_next_day now d h m = Inr (Some dt)"
  shows "d \<in> set hari \<and> next_weekly now (int (py_index hari d)) h m = Inr (as_utc dt)"
  using assms by (auto simp: get_next_day_def next_weekly_def Let_def pbind_eq_Inr split: if_splits)

lemma lower_hari: "s \<in> set hari \<Longrightarrow> py_lower s = s"
  by (auto simp: hari_def py_lower_def lower_char_def)

lemma get_next_day_as_weekly:
  "d \<in> set hari \<Longrightarrow>
   (case get_next_day now d h m of Inr (Some dt) \<Rightarrow> Some (as_utc dt) | _ \<Rightarrow> None)
   = (case next_weekly now (int (py_index hari d)) h m of Inr r \<Rightarrow> Some r | _ \<Rightarrow> None)"
  by (auto simp: get_next_day_def next_weekly_def Let_def pbind_def split: sum.splits)

lemma parse_single:
  "py_split s = [w] \<Longrightarrow> CHR '':'' \<in> set w \<Longrightarrow> parse_time_input tz u s = parse_hhmm (now_in tz u) w"
  by (simp add: parse_time_input_def)

lemma parse_day:
  "py_split s = [d, w] \<Longrightarrow> py_lower d \<in> set hari \<Longrightarrow>
     parse_time_input tz u s = parse_day_hhmm (now_in tz u) (py_lower d) w"
  by (simp add: parse_time_input_def)

lemma parse_ddmm:
  "py_split s = [dm, w] \<Longrightarrow> py_lower dm \<notin> set hari \<Longrightarrow> CHR ''-'' \<in> set dm \<Longrightarrow> CHR '':'' \<in> set w \<Longrightarrow>
     parse_time_input tz u s = parse_ddmm_hhmm (now_in tz u) dm w"
  by (simp add: parse_time_input_def)

lemma parse_cases:
  assumes "parse_time_input tz u s = Some r"
  obtains w where "parse_hhmm (now_in tz u) w = Some r"
    | d w where "parse_day_hhmm (now_in tz u) d w = Some r"
    | dm w where "parse_ddmm_hhmm (now_in tz u) dm w = Some r"
  using assms by (auto simp: parse_time_input_def Let_def split: if_splits)

text \<open>C9: a single token HH:MM whose minute of the day has already come (or is now) in the default zone is read as that time tomorrow, converted to UTC.\<close>

theorem parse_hhmm_passed:
  assumes "py_split s = [w]" "CHR '':'' \<in> set w" "map_int2 CHR '':'' w = Some (h, m)"
    and "replace_hm (now_in tz u) h m = Inr dt" "h * 60 + m \<le> clock_min (now_in tz u)"
  shows "parse_time_input tz u s = Some (as_utc (add_days dt 1))"
  using assms replace_hm_le[of "now_in tz u" h m dt]
  by (simp add: parse_single parse_hhmm_def)

text \<open>C10: a single token HH:MM still ahead today in the default zone is read as that time today, converted to UTC.\<close>

theorem parse_hhmm_ahead:
  assumes "py_split s = [w]" "CHR '':'' \<in> set w" "map_int2 CHR '':'' w = Some (h, m)"
    and "replace_hm (now_in tz u) h m = Inr dt" "clock_min (now_in tz u) < h * 60 + m"
  shows "parse_time_input tz u s = Some (as_utc dt)"
  using assms replace_hm_le[of "now_in tz u" h m dt]
  by (simp add: parse_single parse_hhmm_def)

text \<open>C11: a day name that is today, with a time already reached, is read as the same day and time one week later.\<close>

theorem parse_weekday_passed:
  assumes "py_split s = [d, w]" "py_lower d \<in> set hari" "map_int2 CHR '':'' w = Some (h, m)"
    and "weekday (now_in tz u) = int (py_index hari (py_lower d))"
    and "replace_hm (now_in tz u) h m = Inr dt" "h * 60 + m \<le> clock_min (now_in tz u)"
  shows "parse_time_input tz u s = Some (as_utc (add_days dt 7))"
  using assms replace_hm_le[of "now_in tz u" h m dt]
  by (simp add: parse_day parse_day_hhmm_def get_next_day_def Let_def)

lemma utc_less_by_day:
  assumes "wf_naive (wall a)" "wf_naive (wall b)" "utcoff a = utcoff b" "dord (wall a) < dord (wall b)"
  shows "utc_us a < utc_us b"
proof -
  have "naive_us (wall a) < dord (wall a) * us_per_day + us_per_day"
    using assms(1) unfolding naive_us_def wf_naive_def us_unit_defs by linarith
  also have "\<dots> = (dord (wall a) + 1) * us_per_day" by (simp add: algebra_simps)
  also have "\<dots> \<le> dord (wall b) * us_per_day" using assms(4) by (intro mult_right_mono) simp_all
  also have "\<dots> \<le> naive_us (wall b)"
    using assms(2) unfolding naive_us_def wf_naive_def us_unit_defs by linarith
  finally show ?thesis using assms(3) by (simp add: utc_us_def)
qed

lemma dord_le_next_year:
  assumes "1 \<le> dord (wall a)"
  shows "dord (wall a) \<le> days_before_year (year_of a + 1)"
proof -
  obtain y mo d where o: "ord_to_ymd (dord (wall a)) = (y, mo, d)" by (metis prod_cases3)
  have c: "1 \<le> mo" "mo \<le> 12" "d \<le> days_in_month y mo" "ymd_to_ord y mo d = dord (wall a)"
    using ord_to_ymd_correct[OF assms o] by simp_all
  have "days_before_month y mo + days_in_month y mo \<le> (if is_leap y then 366 else 365)"
    using days_before_month_le[of mo 12 y] days_before_month_last[of y] c days_in_month_bounds[of y 12] by auto
  then show ?thesis using c o days_before_year_succ[of y] by (simp add: year_of_def ymd_to_ord_def)
qed

lemma replace_ymd_hm_eq_Inr:
  "replace_ymd_hm a y mo d h mi = Inr r \<longleftrightarrow>
     valid_ymd y mo d \<and> 0 \<le> h \<and> h < 24 \<and> 0 \<le> mi \<and> mi < 60 \<and>
     r = a\<lparr>wall := \<lparr>dord = ymd_to_ord y mo d, hour = h, minute = mi, second = 0, microsecond = 0\<rparr>\<rparr>"
  by (auto simp: replace_ymd_hm_def fits_c_int_def dest: valid_ymd_fits_c_int)

lemma ymd_to_ord_after_year_start:
  "valid_ymd y mo d \<Longrightarrow> days_before_year y < ymd_to_ord y mo d"
  using days_before_month_nonneg[of mo y] by (simp add: valid_ymd_def ymd_to_ord_def)

lemma next_daily_future:
  assumes "wf_naive (wall now)" "next_daily now h m = Inr r"
  shows "utc_us now < utc_us r"
proof -
  have "0 \<le> h" "h < 24" "0 \<le> m" "m < 60"
    using assms(2) by (auto simp: next_daily_def pbind_eq_Inr replace_hm_eq_Inr)
  with assms show ?thesis using next_daily_spec[of now h m] by auto
qed

lemma next_weekly_future:
  assumes "wf_naive (wall now)" "0 \<le> t" "t < 7" "next_weekly now t h m = Inr r"
  shows "utc_us now < utc_us r"
proof -
  have "0 \<le> h" "h < 24" "0 \<le> m" "m < 60"
    using assms(4) by (auto simp: next_weekly_def Let_def pbind_eq_Inr replace_hm_eq_Inr)
  with assms show ?thesis using next_weekly_spec[of now h m t] by auto
qed

lemma parse_ddmm_future:
  assumes "1 \<le> dord (wall now)" "wf_naive (wall now)" "parse_ddmm_hhmm now dm w = Some r"
  shows "utc_us now < utc_us r"
proof -
  obtain day month h m dt where hm: "replace_ymd_hm now (year_of now) month day h m = Inr dt"
    and res: "(aware_le dt now \<and> (\<exists>dt'. replace_ymd_hm dt (year_of now + 1) month day h m = Inr dt' \<and> r = as_utc dt'))
              \<or> (\<not> aware_le dt now \<and> r = as_utc dt)"
    using assms(3) by (auto simp: parse_ddmm_hhmm_def Let_def split: option.splits sum.splits if_splits)
  show ?thesis
  proof (cases "aware_le dt now")
    case True
    then obtain dt' where dt': "replace_ymd_hm dt (year_of now + 1) month day h m = Inr dt'" "r = as_utc dt'"
      using res by blast
    have f: "valid_ymd (year_of now + 1) month day" "utcoff dt' = utcoff now" "wf_naive (wall dt')"
        "dord (wall dt') = ymd_to_ord (year_of now + 1) month day"
      using dt'(1) hm by (auto simp: replace_ymd_hm_eq_Inr wf_naive_def)
    have "dord (wall now) < dord (wall dt')"
      using dord_le_next_year[OF assms(1)] ymd_to_ord_after_year_start[OF f(1)] f(4) by simp
    then show ?thesis using utc_less_by_day[of now dt'] assms(2) f dt'(2) by simp
  next
    case False
    with res show ?thesis by (simp add: aware_le_def)
  qed
qed

text \<open>C8: every date-time that parse_time_input returns lies strictly after the clock reading it was parsed at, for all three grammars (HH:MM, day name and DD-MM), whatever the offset of the default zone (for any local date from 0001-01-01 on).\<close>

theorem parse_result_in_future:
  assumes "parse_time_input tz u s = Some r" and "1 \<le> dord (wall (now_in tz u))"
  shows "u < utc_us r"
  using assms(1)
proof (cases rule: parse_cases)
  case (1 w)
  then show ?thesis
    using next_daily_future[of "now_in tz u"]
    by (auto simp: parse_hhmm_next_daily split: option.splits sum.splits)
next
  case (2 d w)
  then obtain h m dt where "get_next_day (now_in tz u) d h m = Inr (Some dt)" "r = as_utc dt"
    by (auto simp: parse_day_hhmm_def split: option.splits sum.splits)
  with get_next_day_next_weekly[of "now_in tz u" d h m dt] py_index_less[of d hari]
    next_weekly_future[of "now_in tz u" "int (py_index hari d)" h m r]
  show ?thesis by (simp add: hari_def)
next
  case (3 dm w)
  then show ?thesis using parse_ddmm_future[of "now_in tz u" dm w r] assms(2) by simp
qed

lemma as_utc_whole_minute:
  assumes "second (wall x) = 0" "microsecond (wall x) = 0"
  shows "second (wall (as_utc x)) = 0 \<and> microsecond (wall (as_utc x)) = 0 \<and> utcoff (as_utc x) = 0"
proof -
  define k where "k = dord (wall x) * 1440 + hour (wall x) * 60 + minute (wall x) - utcoff x"
  have v: "utc_us x = k * us_per_min"
    using assms by (simp add: utc_us_def naive_us_def k_def us_unit_rel algebra_simps)
  have "(k * us_per_min) mod us_per_min = 0" by simp
  moreover have "(k * us_per_min) mod us_per_sec = 0"
    using us_units_dvd(1) by (simp add: mod_eq_0_iff_dvd)
  ultimately show ?thesis by (simp add: as_utc_def naive_of_us_def v)
qed

lemma get_next_day_whole_minute:
  "get_next_day n d h m = Inr (Some x) \<Longrightarrow> second (wall x) = 0 \<and> microsecond (wall x) = 0"
  by (auto simp: get_next_day_def Let_def pbind_eq_Inr replace_hm_eq_Inr split: if_splits)

lemma replace_ymd_hm_whole_minute:
  "replace_ymd_hm a y mo d h m = Inr x \<Longrightarrow> second (wall x) = 0 \<and> microsecond (wall x) = 0"
  by (auto simp: replace_ymd_hm_eq_Inr)

lemma parse_result_form:
  assumes "parse_time_input tz u s = Some r"
  shows "\<exists>x. r = as_utc x \<and> second (wall x) = 0 \<and> microsecond (wall x) = 0"
  using assms
proof (cases rule: parse_cases)
  case (1 w)
  then show ?thesis
    by (auto simp: parse_hhmm_def replace_hm_eq_Inr split: option.splits sum.splits)
next
  case (2 d w)
  then show ?thesis
    by (auto simp: parse_day_hhmm_def dest!: get_next_day_whole_minute
        split: option.splits sum.splits if_splits)
next
  case (3 dm w)
  then show ?thesis
    by (auto simp: parse_ddmm_hhmm_def Let_def dest!: replace_ymd_hm_whole_minute
        split: option.splits sum.splits if_splits; blast)
qed

text \<open>C12: every result of parse_time_input is in UTC (offset 0) with zero seconds and microseconds, the normal form that the task file stores.\<close>

theorem parse_result_utc_whole_minute:
  assumes "parse_time_input tz u s = Some r"
  shows "utcoff r = 0 \<and> second (wall r) = 0 \<and> microsecond (wall r) = 0"
  using parse_result_form[OF assms] as_utc_whole_minute by blast

lemma leap_next_not_leap: "is_leap y \<Longrightarrow> \<not> is_leap (y + 1)"
  by (simp add: is_leap_def) presburger

text \<open>C13: on a date after 29 February of a leap year, the expression 29-02 HH:MM is rejected (None): the next year has no 29 February and the code tries only one following year.\<close>

theorem parse_feb29_after_leap_day:
  assumes "py_split s = [dm, w]" "py_lower dm \<notin> set hari" "CHR ''-'' \<in> set dm" "CHR '':'' \<in> set w"
    and "map_int2 CHR ''-'' dm = Some (29, 2)" "map_int2 CHR '':'' w = Some (h, m)"
    and "0 \<le> h" "h < 24" "0 \<le> m" "m < 60"
    and "is_leap (year_of (now_in tz u))" "1 \<le> year_of (now_in tz u)" "year_of (now_in tz u) \<le> 9999"
    and "ymd_to_ord (year_of (now_in tz u)) 2 29 < dord (wall (now_in tz u))"
  shows "parse_time_input tz u s = None"
proof -
  let ?n = "now_in tz u" and ?y = "year_of (now_in tz u)"
  have v: "valid_ymd ?y 2 29" using assms(11-13) by (simp add: valid_ymd_def days_in_month_def)
  obtain dt where dt: "replace_ymd_hm ?n ?y 2 29 h m = Inr dt" using v assms(7-10) by (simp add: replace_ymd_hm_eq_Inr)
  have dtf: "wf_naive (wall dt)" "utcoff dt = utcoff ?n" "dord (wall dt) < dord (wall ?n)"
    using dt assms(7-10,14) by (auto simp: replace_ymd_hm_eq_Inr wf_naive_def)
  have "utc_us dt < utc_us ?n"
    using utc_less_by_day[OF dtf(1) wf_now_in dtf(2,3)] .
  then have le: "aware_le dt ?n" by (simp add: aware_le_def)
  have "\<not> valid_ymd (?y + 1) 2 29" using leap_next_not_leap[OF assms(11)] by (simp add: valid_ymd_def days_in_month_def)
  then have "replace_ymd_hm dt (?y + 1) 2 29 h m = Inl ValueError"
    using assms(7-10,12,13) by (simp add: replace_ymd_hm_def fits_c_int_def)
  then show ?thesis using parse_ddmm[OF assms(1-4)] assms(5,6) dt le by (simp add: parse_ddmm_hhmm_def)
qed

text \<open>C14: a single token without a colon, with a part that is not an integer, or with an hour or minute out of range is rejected (None).\<close>

theorem parse_single_token_rejected:
  assumes "py_split s = [w]"
    and "CHR '':'' \<notin> set w \<or> map_int2 CHR '':'' w = None
         \<or> (map_int2 CHR '':'' w = Some (h, m) \<and> \<not> (0 \<le> h \<and> h < 24 \<and> 0 \<le> m \<and> m < 60))"
  shows "parse_time_input tz u s = None"
  using assms by (auto simp: parse_time_input_def parse_hhmm_def replace_hm_def fits_c_int_def Let_def split: option.splits)

section \<open>Witnesses\<close>

abbreviation leap_march :: instant where
  "leap_march \<equiv> 63844945200000000"

lemma leap_march_fields:
  "dord (wall (now_in (\<lambda>_. 420) leap_march)) = 738946"
  "year_of (now_in (\<lambda>_. 420) leap_march) = 2024"
  "ymd_to_ord 2024 2 29 = 738945"
  by (simp add: now_in_def naive_of_us_def us_unit_defs, code_simp, code_simp)

lemma parse_0930_at_mon_10am:
  "parse_time_input (\<lambda>_. 420) mon_10am ''09:30''
     = Some (as_utc (add_days (at_hm (now_in (\<lambda>_. 420) mon_10am) 9 30) 1))"
  using replace_hm_le[of "now_in (\<lambda>_. 420) mon_10am" 9 30] mon_10am_clock
  by (simp add: parse_time_input_def parse_hhmm_def py_eval replace_hm_def fits_c_int_def Let_def)

theorem parse_hhmm_passed_witness:
  "parse_time_input (\<lambda>_. 420) mon_10am ''09:30''
     = Some (as_utc (add_days (at_hm (now_in (\<lambda>_. 420) mon_10am) 9 30) 1))"
  using parse_hhmm_passed[of "''09:30''" "''09:30''" 9 30 "\<lambda>_. 420" mon_10am
      "at_hm (now_in (\<lambda>_. 420) mon_10am) 9 30"] mon_10am_clock
  by (simp add: py_eval replace_hm_def fits_c_int_def)

theorem parse_hhmm_ahead_witness:
  "parse_time_input (\<lambda>_. 420) mon_10am ''11:45''
     = Some (as_utc (at_hm (now_in (\<lambda>_. 420) mon_10am) 11 45))"
  using parse_hhmm_ahead[of "''11:45''" "''11:45''" 11 45 "\<lambda>_. 420" mon_10am
      "at_hm (now_in (\<lambda>_. 420) mon_10am) 11 45"] mon_10am_clock
  by (simp add: py_eval replace_hm_def fits_c_int_def)

theorem parse_weekday_passed_witness:
  "parse_time_input (\<lambda>_. 420) mon_10am ''Senin 09:00''
     = Some (as_utc (add_days (at_hm (now_in (\<lambda>_. 420) mon_10am) 9 0) 7))"
  using parse_weekday_passed[of "''Senin 09:00''" "''Senin''" "''09:00''" 9 0 "\<lambda>_. 420" mon_10am
      "at_hm (now_in (\<lambda>_. 420) mon_10am) 9 0"] mon_10am_clock
  by (simp add: py_eval replace_hm_def fits_c_int_def hari_def)

theorem parse_result_in_future_witness:
  "parse_time_input (\<lambda>_. 420) mon_10am ''09:30''
     = Some (as_utc (add_days (at_hm (now_in (\<lambda>_. 420) mon_10am) 9 30) 1))
   \<and> mon_10am < utc_us (as_utc (add_days (at_hm (now_in (\<lambda>_. 420) mon_10am) 9 30) 1))"
  using parse_result_in_future[OF parse_0930_at_mon_10am] parse_0930_at_mon_10am
  by (simp add: now_in_def naive_of_us_def us_unit_defs)

theorem parse_result_utc_whole_minute_witness:
  "utcoff (as_utc (add_days (at_hm (now_in (\<lambda>_. 420) mon_10am) 9 30) 1)) = 0
   \<and> second (wall (as_utc (add_days (at_hm (now_in (\<lambda>_. 420) mon_10am) 9 30) 1))) = 0
   \<and> microsecond (wall (as_utc (add_days (at_hm (now_in (\<lambda>_. 420) mon_10am) 9 30) 1))) = 0"
  using parse_result_utc_whole_minute[OF parse_0930_at_mon_10am] .

theorem parse_feb29_after_leap_day_witness:
  "parse_time_input (\<lambda>_. 420) leap_march ''29-02 09:00'' = None"
  using parse_feb29_after_leap_day[of "''29-02 09:00''" "''29-02''" "''09:00''" 9 0 "\<lambda>_. 420" leap_march]
    leap_march_fields
  by (simp add: py_eval hari_def is_leap_def)

theorem parse_single_token_rejected_witness:
  "parse_time_input (\<lambda>_. 420) mon_10am ''25:00'' = None"
  using parse_single_token_rejected[of "''25:00''" "''25:00''" 25 0 "\<lambda>_. 420" mon_10am]
  by (simp add: py_eval)

end
