(* ===== verification/TaskStore.thy ===== *)
theory TaskStore
  imports PyCore
begin

text \<open>
  The task file of \<^verbatim>\<open>src/chronoreply.py\<close>: \<^verbatim>\<open>ChronoReply._load_tasks\<close> (lines
  130--148) and \<^verbatim>\<open>ChronoReply.save_tasks\<close> (lines 150--162). The schedule of a
  task is written with \<^verbatim>\<open>strftime("%Y%m%d%H%M")\<close> and read back with
  \<^verbatim>\<open>datetime.strptime(s, "%Y%m%d%H%M")\<close>; \<^verbatim>\<open>strptime\<close> is modelled as CPython's
  \<^verbatim>\<open>_strptime\<close> runs it: one backtracking regular expression per directive,
  concatenated, the first match taken, then the check that no data remains and
  the check that the date exists. The file is the JSON value it holds; the JSON
  text itself is not modelled.
\<close>

section \<open>\<^verbatim>\<open>strftime("%Y%m%d%H%M")\<close>\<close>

definition digit_char :: "int \<Rightarrow> char" where
  "digit_char d = ''0123456789'' ! nat d"

text \<open>A decimal number zero-padded to \<open>w\<close> digits (\<^verbatim>\<open>%m\<close>, \<^verbatim>\<open>%d\<close>,
  \<^verbatim>\<open>%H\<close>, \<^verbatim>\<open>%M\<close> pad to 2, \<^verbatim>\<open>%Y\<close> to 4).\<close>

fun dec_digits :: "nat \<Rightarrow> int \<Rightarrow> string" where
  "dec_digits 0 n = []"
| "dec_digits (Suc w) n = dec_digits w (n div 10) @ [digit_char (n mod 10)]"

definition strftime_ymdhm :: "aware \<Rightarrow> string" where
  "strftime_ymdhm a =
     (case ord_to_ymd (dord (wall a)) of (y, mo, d) \<Rightarrow>
        dec_digits 4 y @ dec_digits 2 mo @ dec_digits 2 d
        @ dec_digits 2 (hour (wall a)) @ dec_digits 2 (minute (wall a)))"

section \<open>\<^verbatim>\<open>datetime.strptime(s, "%Y%m%d%H%M")\<close>\<close>

text \<open>A character class of the compiled pattern, and a sequence of classes matched
  against a prefix of the input (the matched text and the rest).\<close>

definition dg :: "int \<Rightarrow> int \<Rightarrow> char \<Rightarrow> bool" where
  "dg lo hi c \<longleftrightarrow> is_digit c \<and> lo \<le> digit_val c \<and> digit_val c \<le> hi"

fun match_cls :: "(char \<Rightarrow> bool) list \<Rightarrow> string \<Rightarrow> (string \<times> string) option" where
  "match_cls [] s = Some ([], s)"
| "match_cls (p # ps) [] = None"
| "match_cls (p # ps) (c # cs) =
     (if p c then map_option (\<lambda>(t, r). (c # t, r)) (match_cls ps cs) else None)"

text \<open>An alternation \<open>a|b|...\<close>: the matches of the alternatives, in the order the
  backtracking matcher tries them.\<close>

definition re_alt :: "(char \<Rightarrow> bool) list list \<Rightarrow> string \<Rightarrow> (string \<times> string) list" where
  "re_alt alts s = List.map_filter (\<lambda>a. match_cls a s) alts"

text \<open>The groups of CPython's \<^verbatim>\<open>_strptime.TimeRE\<close> for the five directives.\<close>

definition re_Y :: "(char \<Rightarrow> bool) list list" where
  "re_Y = [[dg 0 9, dg 0 9, dg 0 9, dg 0 9]]"

definition re_m :: "(char \<Rightarrow> bool) list list" where
  "re_m = [[dg 1 1, dg 0 2], [dg 0 0, dg 1 9], [dg 1 9]]"

definition re_d :: "(char \<Rightarrow> bool) list list" where
  "re_d = [[dg 3 3, dg 0 1], [dg 1 2, dg 0 9], [dg 0 0, dg 1 9], [dg 1 9], [(\<lambda>c. c = CHR '' ''), dg 1 9]]"

definition re_H :: "(char \<Rightarrow> bool) list list" where
  "re_H = [[dg 2 2, dg 0 3], [dg 0 1, dg 0 9], [dg 0 9]]"

definition re_M :: "(char \<Rightarrow> bool) list list" where
  "re_M = [[dg 0 5, dg 0 9], [dg 0 9]]"

text \<open>Concatenation with backtracking: every way to match the groups one after the
  other, in the matcher's order; \<^verbatim>\<open>re.match\<close> returns the first.\<close>

fun re_seq :: "(char \<Rightarrow> bool) list list list \<Rightarrow> string \<Rightarrow> (string list \<times> string) list" where
  "re_seq [] s = [([], s)]"
| "re_seq (g # gs) s =
     concat (map (\<lambda>(t, r). map (\<lambda>(ts, r'). (t # ts, r')) (re_seq gs r)) (re_alt g s))"

definition strptime_ymdhm :: "string \<Rightarrow> aware py_result" where
  "strptime_ymdhm s =
     (case re_seq [re_Y, re_m, re_d, re_H, re_M] s of
        [] \<Rightarrow> Inl ValueError
      | (toks, rest) # _ \<Rightarrow>
          if rest \<noteq> [] then Inl ValueError
          else
            (case map (\<lambda>t. the (py_int t)) toks of
               [y, mo, d, h, mi] \<Rightarrow>
                 if valid_ymd y mo d
                 then Inr \<lparr>wall = \<lparr>dord = ymd_to_ord y mo d, hour = h, minute = mi,
                                    second = 0, microsecond = 0\<rparr>, utcoff = 0\<rparr>
                 else Inl ValueError
             | _ \<Rightarrow> Inl ValueError))"

text \<open>\<^verbatim>\<open>datetime.strptime(v, ...).replace(tzinfo=pytz.utc)\<close> on a dictionary
  value: a non-string argument is a \<^verbatim>\<open>TypeError\<close>.\<close>

definition strptime_val :: "pyval \<Rightarrow> aware py_result" where
  "strptime_val v = (case v of PStr s \<Rightarrow> strptime_ymdhm s | _ \<Rightarrow> Inl TypeError)"

section \<open>The task file\<close>

text \<open>\<^verbatim>\<open>TASK_FILE\<close>: absent, holding text that \<^verbatim>\<open>json.load\<close> rejects, or
  holding a JSON value.\<close>

datatype task_file = NoFile | Corrupt | Stored pyval

text \<open>The values \<^verbatim>\<open>json.dump\<close> can write: everything but a date-time.\<close>

fun json_ok :: "pyval \<Rightarrow> bool" where
  "json_ok (PDt a) = False"
| "json_ok (PList xs) = (\<forall>x\<in>set xs. json_ok x)"
| "json_ok (PDict d) = (\<forall>p\<in>set d. json_ok (snd p))"
| "json_ok _ = True"

text \<open>\<^verbatim>\<open>with open(TASK_FILE, "w") as f: json.dump(v, f, indent=4)\<close>: the file
  is truncated first, so a value \<^verbatim>\<open>json.dump\<close> fails on leaves a prefix of
  its text, which the next \<^verbatim>\<open>json.load\<close> rejects.\<close>

definition dump_file :: "pyval \<Rightarrow> task_file" where
  "dump_file v = (if json_ok v then Stored v else Corrupt)"

subsection \<open>\<^verbatim>\<open>_load_tasks\<close>\<close>

text \<open>The loop body \<^verbatim>\<open>if task.get("schedule_time_utc"): ...\<close> on one element;
  an element that is not a dictionary has no \<^verbatim>\<open>get\<close>.\<close>

definition load_convert :: "pyval \<Rightarrow> pydict py_result" where
  "load_convert v =
     (case v of
        PDict task \<Rightarrow>
          (if py_truthy (dict_get task ''schedule_time_utc'') then
             Inr (dict_setitem task ''schedule_time_utc''
                   (case strptime_val (dict_get task ''schedule_time_utc'') of
                      Inl _ \<Rightarrow> PNone
                    | Inr a \<Rightarrow> PDt a))
           else Inr task)
      | _ \<Rightarrow> Inl AttributeError)"

fun load_convert_all :: "pyval list \<Rightarrow> pydict list py_result" where
  "load_convert_all [] = Inr []"
| "load_convert_all (v # vs) =
     pbind (load_convert v) (\<lambda>t. pbind (load_convert_all vs) (\<lambda>ts. Inr (t # ts)))"

text \<open>\<^verbatim>\<open>[t for t in data if t["schedule_time_utc"]]\<close>.\<close>

fun load_filter :: "pydict list \<Rightarrow> pydict list py_result" where
  "load_filter [] = Inr []"
| "load_filter (t # ts) =
     pbind (dict_getitem t ''schedule_time_utc'') (\<lambda>s.
       pbind (load_filter ts) (\<lambda>rs. Inr (if py_truthy s then t # rs else rs)))"

text \<open>The body of the \<^verbatim>\<open>try\<close> on the loaded JSON value: a list is converted
  and filtered; iterating a dictionary or a string yields strings, which have no
  \<^verbatim>\<open>get\<close>; other values are not iterable.\<close>

definition load_body :: "pyval \<Rightarrow> pydict list py_result" where
  "load_body data =
     (case data of
        PList items \<Rightarrow> pbind (load_convert_all items) load_filter
      | PDict d \<Rightarrow> (if d = [] then Inr [] else Inl AttributeError)
      | PStr s \<Rightarrow> (if s = [] then Inr [] else Inl AttributeError)
      | _ \<Rightarrow> Inl TypeError)"

definition load_tasks :: "task_file \<Rightarrow> pydict list" where
  "load_tasks f =
     (case f of
        NoFile \<Rightarrow> []
      | Corrupt \<Rightarrow> []
      | Stored data \<Rightarrow> (case load_body data of Inl _ \<Rightarrow> [] | Inr ts \<Rightarrow> ts))"

subsection \<open>\<^verbatim>\<open>save_tasks\<close>\<close>

text \<open>\<^verbatim>\<open>obj = task.copy()\<close> with its schedule formatted; a truthy schedule
  that is not a date-time has no \<^verbatim>\<open>astimezone\<close>.\<close>

definition save_serialize :: "pydict \<Rightarrow> pydict py_result" where
  "save_serialize task =
     (if py_truthy (dict_get task ''schedule_time_utc'') then
        (case dict_get task ''schedule_time_utc'' of
           PDt a \<Rightarrow> Inr (dict_setitem task ''schedule_time_utc'' (PStr (strftime_ymdhm (as_utc a))))
         | _ \<Rightarrow> Inl AttributeError)
      else Inr task)"

fun save_serialize_all :: "pydict list \<Rightarrow> pydict list py_result" where
  "save_serialize_all [] = Inr []"
| "save_serialize_all (t # ts) =
     pbind (save_serialize t) (\<lambda>ob. pbind (save_serialize_all ts) (\<lambda>obs. Inr (ob # obs)))"

text \<open>The new content of the file; an exception raised while serializing leaves
  the file untouched (it is opened afterwards).\<close>

definition save_tasks :: "pydict list \<Rightarrow> task_file py_result" where
  "save_tasks tasks = pbind (save_serialize_all tasks) (\<lambda>ser. Inr (dump_file (PList (map PDict ser))))"

subsection \<open>Model predicates\<close>

text \<open>A schedule as the modelled code produces it: UTC, whole minutes, within
  \<^verbatim>\<open>datetime\<close>'s range of ordinals (\<^verbatim>\<open>date.max.toordinal() = 3652059\<close>).\<close>

definition stored_dt_ok :: "aware \<Rightarrow> bool" where
  "stored_dt_ok a \<longleftrightarrow> utcoff a = 0 \<and> wf_naive (wall a) \<and> second (wall a) = 0 \<and> microsecond (wall a) = 0
     \<and> 1 \<le> dord (wall a) \<and> dord (wall a) \<le> 3652059"

text \<open>A task whose schedule is such a date-time or \<^verbatim>\<open>None\<close>, whose other values
  \<^verbatim>\<open>json.dump\<close> can write, and whose keys are distinct (a Python dictionary).\<close>

definition stored_task_ok :: "pydict \<Rightarrow> bool" where
  "stored_task_ok t \<longleftrightarrow> distinct (map fst t)
     \<and> (case map_of t ''schedule_time_utc'' of Some (PDt a) \<Rightarrow> stored_dt_ok a | Some PNone \<Rightarrow> True | _ \<Rightarrow> False)
     \<and> (\<forall>p\<in>set t. fst p \<noteq> ''schedule_time_utc'' \<longrightarrow> json_ok (snd p))"

text \<open>The dictionary that \<^verbatim>\<open>save_tasks\<close> writes for such a task.\<close>

definition stored_ser :: "pydict \<Rightarrow> pydict" where
  "stored_ser t = (case dict_get t ''schedule_time_utc'' of
      PDt a \<Rightarrow> dict_setitem t ''schedule_time_utc'' (PStr (strftime_ymdhm a)) | _ \<Rightarrow> t)"

text \<open>A sample schedule: 2025-11-10 07:05 UTC.\<close>

abbreviation sample_dt :: aware where
  "sample_dt \<equiv> \<lparr>wall = \<lparr>dord = 739565, hour = 7, minute = 5, second = 0, microsecond = 0\<rparr>, utcoff = 0\<rparr>"

section \<open>Facts\<close>

subsection \<open>Formatting and parsing of the schedule\<close>


lemma digit_cases: "0 \<le> d \<Longrightarrow> d \<le> (9::int) \<Longrightarrow>
  d = 0 \<or> d = 1 \<or> d = 2 \<or> d = 3 \<or> d = 4 \<or> d = 5 \<or> d = 6 \<or> d = 7 \<or> d = 8 \<or> d = 9"
  by presburger

lemma digit_char_props:
  assumes "0 \<le> d" "d \<le> 9"
  shows "is_digit (digit_char d) \<and> digit_val (digit_char d) = d"
  using digit_cases[OF assms] by (auto simp: digit_char_def is_digit_def digit_val_def)

lemma dg_digit_char [simp]: "0 \<le> d \<Longrightarrow> d \<le> 9 \<Longrightarrow> dg lo hi (digit_char d) \<longleftrightarrow> lo \<le> d \<and> d \<le> hi"
  using digit_char_props by (simp add: dg_def)

lemma dec_digits_2: "dec_digits 2 n = [digit_char (n div 10 mod 10), digit_char (n mod 10)]"
  by (simp add: numeral_2_eq_2)

lemma digit_not_space [simp]: "0 \<le> d \<Longrightarrow> d \<le> 9 \<Longrightarrow> digit_char d \<noteq> CHR '' ''"
  using digit_cases[of d] by (auto simp: digit_char_def)

lemma two_digit_split:
  assumes "0 \<le> n" "n < (100::int)"
  shows "dec_digits 2 n = [digit_char (n div 10), digit_char (n mod 10)]"
    "0 \<le> n div 10" "n div 10 \<le> 9" "0 \<le> n mod 10" "n mod 10 \<le> 9"
    "n = 10 * (n div 10) + n mod 10"
  using assms by (auto simp: dec_digits_2)

lemma re_m_match:
  assumes "1 \<le> mo" "mo \<le> 12"
  shows "\<exists>xs. re_alt re_m (dec_digits 2 mo @ rest) = (dec_digits 2 mo, rest) # xs"
proof -
  have c: "mo div 10 = 0 \<and> 1 \<le> mo mod 10 \<or> mo div 10 = 1 \<and> mo mod 10 \<le> 2" using assms by presburger
  show ?thesis using two_digit_split[of mo] assms c
    by (auto simp: re_alt_def re_m_def List.map_filter_simps)
qed

lemma re_d_match:
  assumes "1 \<le> d" "d \<le> 31"
  shows "\<exists>xs. re_alt re_d (dec_digits 2 d @ rest) = (dec_digits 2 d, rest) # xs"
proof -
  have c: "d div 10 = 0 \<and> 1 \<le> d mod 10 \<or> (d div 10 = 1 \<or> d div 10 = 2) \<or> d div 10 = 3 \<and> d mod 10 \<le> 1"
    using assms by presburger
  show ?thesis using two_digit_split[of d] assms c
    by (auto simp: re_alt_def re_d_def List.map_filter_simps)
qed

lemma re_H_match:
  assumes "0 \<le> h" "h < 24"
  shows "\<exists>xs. re_alt re_H (dec_digits 2 h @ rest) = (dec_digits 2 h, rest) # xs"
proof -
  have c: "h div 10 \<le> 1 \<or> h div 10 = 2 \<and> h mod 10 \<le> 3" using assms by presburger
  show ?thesis using two_digit_split[of h] assms c
    by (auto simp: re_alt_def re_H_def List.map_filter_simps)
qed

lemma re_M_match:
  assumes "0 \<le> m" "m < 60"
  shows "\<exists>xs. re_alt re_M (dec_digits 2 m @ rest) = (dec_digits 2 m, rest) # xs"
proof -
  have c: "m div 10 \<le> 5" using assms by presburger
  show ?thesis using two_digit_split[of m] assms c
    by (auto simp: re_alt_def re_M_def List.map_filter_simps)
qed


lemma re_Y_match:
  "\<exists>xs. re_alt re_Y (dec_digits 4 y @ rest) = (dec_digits 4 y, rest) # xs"
proof -
  have d: "0 \<le> k mod 10" "k mod 10 \<le> 9" for k :: int by simp_all
  show ?thesis by (simp add: numeral_eq_Suc re_alt_def re_Y_def List.map_filter_simps d)
qed

lemma re_seq_cons:
  assumes "re_alt g s = (t, r) # xs" and "re_seq gs r = (ts, r') # ys"
  shows "\<exists>m. re_seq (g # gs) s = (t # ts, r') # m"
  using assms by simp

lemma dec_digits_all_digits: "\<forall>c\<in>set (dec_digits w n). is_digit c"
  by (induction w arbitrary: n) (auto simp: digit_char_props)

lemma dec_digits_length [simp]: "length (dec_digits w n) = w"
  by (induction w arbitrary: n) auto

lemma digits_acc_foldl:
  "\<forall>c\<in>set s. is_digit c \<Longrightarrow> digits_acc acc s = Some (foldl (\<lambda>a c. 10 * a + digit_val c) acc s)"
  by (induction s arbitrary: acc) auto

lemma foldl_dec_digits:
  "foldl (\<lambda>a c. 10 * a + digit_val c) acc (dec_digits w n) = acc * 10 ^ w + n mod 10 ^ w"
proof (induction w arbitrary: n)
  case 0
  then show ?case by simp
next
  case (Suc w)
  have "n mod 10 ^ Suc w = 10 * (n div 10 mod 10 ^ w) + n mod 10"
    using zmod_zmult2_eq[where a=n and b=10 and c="10 ^ w"] by (simp add: algebra_simps)
  then show ?case using Suc digit_char_props[of "n mod 10"] by (simp add: algebra_simps)
qed

lemma digit_not_ws: "is_digit c \<Longrightarrow> \<not> is_ws c"
  by (auto simp: is_digit_def is_ws_def Let_def)

lemma py_strip_digits: "\<forall>c\<in>set s. is_digit c \<Longrightarrow> py_strip s = s"
proof -
  assume a: "\<forall>c\<in>set s. is_digit c"
  then have "dropWhile is_ws s = s" "dropWhile is_ws (rev s) = rev s"
    by (auto simp: dropWhile_eq_self_iff digit_not_ws hd_rev intro: last_in_set hd_in_set)
  then show ?thesis by (simp add: py_strip_def)
qed

lemma py_int_digits:
  assumes "s \<noteq> []" "\<forall>c\<in>set s. is_digit c"
  shows "py_int s = Some (foldl (\<lambda>a c. 10 * a + digit_val c) 0 s)"
proof -
  obtain c cs where s: "s = c # cs" using assms(1) by (cases s) auto
  have "c \<noteq> CHR ''-''" "c \<noteq> CHR ''+''" "is_digit c" using assms(2) s by (auto simp: is_digit_def)
  then show ?thesis using assms(2) s
    by (simp add: py_int_def py_strip_digits py_int_core_def digits_acc_foldl)
qed

lemma py_int_dec_digits:
  assumes "0 < w" "0 \<le> n" "n < 10 ^ w"
  shows "py_int (dec_digits w n) = Some n"
proof -
  have "dec_digits w n \<noteq> []" using assms(1) by (metis dec_digits_length length_0_conv neq0_conv)
  then have "py_int (dec_digits w n) = Some (foldl (\<lambda>a c. 10 * a + digit_val c) 0 (dec_digits w n))"
    using py_int_digits dec_digits_all_digits by blast
  then show ?thesis using assms(2,3) by (simp add: foldl_dec_digits)
qed


lemma re_seq_format:
  assumes "1 \<le> mo" "mo \<le> 12" "1 \<le> d" "d \<le> 31" "0 \<le> h" "h < 24" "0 \<le> mi" "mi < 60"
  shows "\<exists>xs. re_seq [re_Y, re_m, re_d, re_H, re_M]
      (dec_digits 4 y @ dec_digits 2 mo @ dec_digits 2 d @ dec_digits 2 h @ dec_digits 2 mi)
    = ([dec_digits 4 y, dec_digits 2 mo, dec_digits 2 d, dec_digits 2 h, dec_digits 2 mi], []) # xs"
proof -
  obtain x1 where 1: "re_alt re_Y (dec_digits 4 y @ dec_digits 2 mo @ dec_digits 2 d @ dec_digits 2 h @ dec_digits 2 mi)
      = (dec_digits 4 y, dec_digits 2 mo @ dec_digits 2 d @ dec_digits 2 h @ dec_digits 2 mi) # x1"
    using re_Y_match by blast
  obtain x2 where 2: "re_alt re_m (dec_digits 2 mo @ dec_digits 2 d @ dec_digits 2 h @ dec_digits 2 mi)
      = (dec_digits 2 mo, dec_digits 2 d @ dec_digits 2 h @ dec_digits 2 mi) # x2"
    using re_m_match assms(1,2) by blast
  obtain x3 where 3: "re_alt re_d (dec_digits 2 d @ dec_digits 2 h @ dec_digits 2 mi)
      = (dec_digits 2 d, dec_digits 2 h @ dec_digits 2 mi) # x3"
    using re_d_match assms(3,4) by blast
  obtain x4 where 4: "re_alt re_H (dec_digits 2 h @ dec_digits 2 mi) = (dec_digits 2 h, dec_digits 2 mi) # x4"
    using re_H_match assms(5,6) by blast
  obtain x5 where 5: "re_alt re_M (dec_digits 2 mi @ []) = (dec_digits 2 mi, []) # x5"
    using re_M_match assms(7,8) by blast
  show ?thesis using 1 2 3 4 5 by simp
qed

lemma ord_year_max:
  assumes "1 \<le> n" "n \<le> 3652059" "ord_to_ymd n = (y, mo, d)"
  shows "y \<le> 9999"
proof (rule ccontr)
  assume "\<not> y \<le> 9999"
  then have "days_before_year 10000 \<le> days_before_year y" by (simp add: days_before_year_le)
  moreover have "days_before_year 10000 = 3652059" by (simp add: days_before_year_def)
  moreover have "1 \<le> mo" "mo \<le> 12" "1 \<le> d" "ymd_to_ord y mo d = n" using ord_to_ymd_correct[OF assms(1,3)] by simp_all
  ultimately show False using days_before_month_nonneg[of mo y] assms(2) by (simp add: ymd_to_ord_def)
qed

text \<open>The format round-trips: for a UTC date-time with whole minutes in
  \<^verbatim>\<open>datetime\<close>'s range, \<^verbatim>\<open>strptime\<close> of its \<^verbatim>\<open>strftime\<close> text gives it back.\<close>

lemma strptime_strftime_ymdhm:
  assumes "stored_dt_ok a"
  shows "strptime_ymdhm (strftime_ymdhm a) = Inr a"
proof -
  obtain y mo d where o: "ord_to_ymd (dord (wall a)) = (y, mo, d)" by (metis prod_cases3)
  have a: "utcoff a = 0" "wf_naive (wall a)" "second (wall a) = 0" "microsecond (wall a) = 0"
    "1 \<le> dord (wall a)" "dord (wall a) \<le> 3652059" using assms by (simp_all add: stored_dt_ok_def)
  have c: "1 \<le> y \<and> 1 \<le> mo \<and> mo \<le> 12 \<and> 1 \<le> d \<and> d \<le> days_in_month y mo \<and> ymd_to_ord y mo d = dord (wall a)"
    using ord_to_ymd_correct[OF a(5) o] .
  have y: "y \<le> 9999" using ord_year_max[OF a(5,6) o] .
  have d31: "d \<le> 31" using c days_in_month_bounds[of y mo] by linarith
  have h: "0 \<le> hour (wall a)" "hour (wall a) < 24" "0 \<le> minute (wall a)" "minute (wall a) < 60"
    using a(2) by (simp_all add: wf_naive_def)
  obtain xs where r: "re_seq [re_Y, re_m, re_d, re_H, re_M] (strftime_ymdhm a)
    = ([dec_digits 4 y, dec_digits 2 mo, dec_digits 2 d, dec_digits 2 (hour (wall a)), dec_digits 2 (minute (wall a))], []) # xs"
    using re_seq_format[of mo d "hour (wall a)" "minute (wall a)" y] c d31 h o by (auto simp: strftime_ymdhm_def)
  have p: "py_int (dec_digits 4 y) = Some y" "py_int (dec_digits 2 mo) = Some mo" "py_int (dec_digits 2 d) = Some d"
    "py_int (dec_digits 2 (hour (wall a))) = Some (hour (wall a))"
    "py_int (dec_digits 2 (minute (wall a))) = Some (minute (wall a))"
    using c y d31 h by (simp_all add: py_int_dec_digits)
  have v: "valid_ymd y mo d" using c y by (simp add: valid_ymd_def)
  show ?thesis using r p v c a by (cases a) (simp add: strptime_ymdhm_def)
qed

lemma update_update_same [simp]: "AList.update k v (AList.update k w al) = AList.update k v al"
  by (induction al) auto

lemma json_ok_update:
  assumes "distinct (map fst d)" "\<forall>p\<in>set d. fst p \<noteq> k \<longrightarrow> json_ok (snd p)" "json_ok v"
  shows "json_ok (PDict (AList.update k v d))"
  using assms
proof (induction d)
  case Nil
  then show ?case by simp
next
  case (Cons p d)
  then show ?case by (cases p) (auto simp: image_iff)
qed

lemma as_utc_id:
  assumes "utcoff a = 0" "wf_naive (wall a)"
  shows "as_utc a = a"
  using assms by (cases a) (simp add: as_utc_def utc_us_def naive_of_us_naive_us)

lemma strftime_length: "length (strftime_ymdhm a) = 12"
  by (simp add: strftime_ymdhm_def split: prod.splits)

lemma strftime_nonempty: "strftime_ymdhm a \<noteq> []"
  using strftime_length[of a] by auto

lemma strftime_digits: "\<forall>c\<in>set (strftime_ymdhm a). is_digit c"
proof -
  obtain y mo d where "ord_to_ymd (dord (wall a)) = (y, mo, d)" by (metis prod_cases3)
  then show ?thesis using dec_digits_all_digits by (auto simp: strftime_ymdhm_def)
qed

text \<open>C15: save_tasks writes the schedule of a task as a fixed twelve-digit %Y%m%d%H%M string, and the strptime conversion of _load_tasks reads that string back as exactly the same date-time, for every UTC whole-minute schedule in datetime's range.\<close>

theorem schedule_format_roundtrip:
  assumes "map_of t ''schedule_time_utc'' = Some (PDt a)" "stored_dt_ok a"
  shows "\<exists>s. save_serialize t = Inr (dict_setitem t ''schedule_time_utc'' (PStr s))
    \<and> length s = 12 \<and> (\<forall>c\<in>set s. is_digit c) \<and> strptime_val (PStr s) = Inr a"
proof -
  have "as_utc a = a" using as_utc_id assms(2) by (simp add: stored_dt_ok_def)
  then have "save_serialize t = Inr (dict_setitem t ''schedule_time_utc'' (PStr (strftime_ymdhm a)))"
    using assms(1) by (simp add: save_serialize_def dict_get_def)
  moreover have "strptime_val (PStr (strftime_ymdhm a)) = Inr a"
    using strptime_strftime_ymdhm[OF assms(2)] by (simp add: strptime_val_def)
  ultimately show ?thesis using strftime_length strftime_digits by blast
qed

lemma save_serialize_stored:
  assumes "stored_task_ok t"
  shows "save_serialize t = Inr (stored_ser t) \<and> json_ok (PDict (stored_ser t))
    \<and> load_convert (PDict (stored_ser t)) = Inr t"
proof (cases "map_of t ''schedule_time_utc''")
  case None
  then show ?thesis using assms by (simp add: stored_task_ok_def)
next
  case (Some v)
  have d: "distinct (map fst t)" and j: "\<forall>p\<in>set t. fst p \<noteq> ''schedule_time_utc'' \<longrightarrow> json_ok (snd p)"
    using assms by (simp_all add: stored_task_ok_def)
  show ?thesis
  proof (cases v)
    case PNone
    have "json_ok (PDict t)"
    proof -
      have "json_ok (snd p)" if "p \<in> set t" for p
      proof (cases "fst p = ''schedule_time_utc''")
        case True
        then have "map_of t ''schedule_time_utc'' = Some (snd p)"
          using map_of_is_SomeI[OF d, of "fst p" "snd p"] that by (cases p) simp
        then show ?thesis using Some PNone by simp
      next
        case False
        then show ?thesis using j that by simp
      qed
      then show ?thesis by simp
    qed
    then show ?thesis using Some PNone
      by (simp add: save_serialize_def stored_ser_def load_convert_def)
  next
    case (PDt a)
    have ok: "stored_dt_ok a" using assms Some PDt by (simp add: stored_task_ok_def)
    then have "as_utc a = a" using as_utc_id by (simp add: stored_dt_ok_def)
    moreover have "strptime_ymdhm (strftime_ymdhm a) = Inr a" using strptime_strftime_ymdhm[OF ok] .
    moreover have "json_ok (PDict (AList.update ''schedule_time_utc'' (PStr (strftime_ymdhm a)) t))"
      using json_ok_update[OF d j, of "PStr (strftime_ymdhm a)"] by simp
    moreover have "AList.update ''schedule_time_utc'' (PDt a) t = t" using Some PDt by (simp add: update_triv)
    ultimately show ?thesis using Some PDt strftime_nonempty[of a]
      by (simp add: save_serialize_def stored_ser_def load_convert_def dict_setitem_def strptime_val_def)
  qed (use assms Some in \<open>simp_all add: stored_task_ok_def\<close>)
qed

lemma save_serialize_all_stored:
  "\<forall>t\<in>set ts. stored_task_ok t \<Longrightarrow> save_serialize_all ts = Inr (map stored_ser ts)"
  by (induction ts) (auto simp: save_serialize_stored)

lemma load_convert_all_stored:
  "\<forall>t\<in>set ts. stored_task_ok t \<Longrightarrow> load_convert_all (map (PDict \<circ> stored_ser) ts) = Inr ts"
  by (induction ts) (auto simp: save_serialize_stored)

lemma load_filter_present:
  "\<forall>t\<in>set ts. map_of t k \<noteq> None \<Longrightarrow> k = ''schedule_time_utc'' \<Longrightarrow>
     load_filter ts = Inr (filter (\<lambda>t. py_truthy (dict_get t k)) ts)"
  by (induction ts) (auto simp: dict_getitem_def dict_get_def)

text \<open>C16: saving a task list and loading the file back gives the same tasks, in the same order, except the tasks whose schedule is None, which are dropped.\<close>

theorem save_load_roundtrip:
  assumes "\<forall>t\<in>set ts. stored_task_ok t"
  shows "\<exists>f. save_tasks ts = Inr f \<and> load_tasks f = filter (\<lambda>t. dict_get t ''schedule_time_utc'' \<noteq> PNone) ts"
proof -
  have j: "json_ok (PList (map PDict (map stored_ser ts)))" using assms save_serialize_stored by auto
  have "map_of t ''schedule_time_utc'' \<noteq> None" if "stored_task_ok t" for t
    using that by (cases "map_of t ''schedule_time_utc''") (simp_all add: stored_task_ok_def)
  then have present: "\<forall>t\<in>set ts. map_of t ''schedule_time_utc'' \<noteq> None" using assms by blast
  have tr: "py_truthy (dict_get t ''schedule_time_utc'') \<longleftrightarrow> dict_get t ''schedule_time_utc'' \<noteq> PNone"
    if "t \<in> set ts" for t
  proof -
    have ok: "stored_task_ok t" using assms that by blast
    then obtain v where v: "map_of t ''schedule_time_utc'' = Some v"
      by (cases "map_of t ''schedule_time_utc''") (simp_all add: stored_task_ok_def)
    then show ?thesis using ok by (cases v) (simp_all add: stored_task_ok_def)
  qed
  have "load_tasks (dump_file (PList (map PDict (map stored_ser ts))))
      = filter (\<lambda>t. dict_get t ''schedule_time_utc'' \<noteq> PNone) ts"
    using j load_convert_all_stored[OF assms] load_filter_present[OF present refl] tr
    by (simp add: dump_file_def load_tasks_def load_body_def cong: filter_cong)
  then show ?thesis using save_serialize_all_stored[OF assms] by (simp add: save_tasks_def)
qed

lemma match_cls_Some:
  "match_cls ps s = Some (tok, r) \<Longrightarrow> s = tok @ r \<and> list_all2 (\<lambda>p c. p c) ps tok"
  by (induction ps s arbitrary: tok rule: match_cls.induct) (auto split: if_splits)

lemma re_alt_mem: "(t, r) \<in> set (re_alt g s) \<Longrightarrow> \<exists>a\<in>set g. match_cls a s = Some (t, r)"
  by (auto simp: re_alt_def List.map_filter_def)

lemma re_seq_mem:
  "(toks, rest) \<in> set (re_seq gs s) \<Longrightarrow> list_all2 (\<lambda>g t. \<exists>a\<in>set g. list_all2 (\<lambda>p c. p c) a t) gs toks"
proof (induction gs arbitrary: s toks)
  case Nil
  then show ?case by simp
next
  case (Cons g gs)
  then obtain t r ts where "(t, r) \<in> set (re_alt g s)" "(ts, rest) \<in> set (re_seq gs r)" "toks = t # ts"
    by auto
  then show ?case using Cons.IH by (auto dest!: re_alt_mem match_cls_Some)
qed

lemma py_int_dg1: "dg lo hi c \<Longrightarrow> py_int [c] = Some (digit_val c)"
  using py_int_digits[of "[c]"] by (simp add: dg_def)

lemma py_int_dg2:
  "dg lo hi c \<Longrightarrow> dg lo' hi' d \<Longrightarrow> py_int [c, d] = Some (10 * digit_val c + digit_val d)"
  using py_int_digits[of "[c, d]"] by (simp add: dg_def)

lemma re_H_value:
  "\<exists>a\<in>set re_H. list_all2 (\<lambda>p c. p c) a t \<Longrightarrow> 0 \<le> the (py_int t) \<and> the (py_int t) < 24"
  by (auto simp: re_H_def list_all2_Cons1 py_int_dg1 py_int_dg2) (auto simp: dg_def)

lemma re_M_value:
  "\<exists>a\<in>set re_M. list_all2 (\<lambda>p c. p c) a t \<Longrightarrow> 0 \<le> the (py_int t) \<and> the (py_int t) < 60"
  by (auto simp: re_M_def list_all2_Cons1 py_int_dg1 py_int_dg2) (auto simp: dg_def)

lemma strptime_ymdhm_Inr:
  assumes "strptime_ymdhm s = Inr a"
  shows "utcoff a = 0 \<and> wf_naive (wall a) \<and> second (wall a) = 0 \<and> microsecond (wall a) = 0"
proof -
  obtain toks rest xs where r: "re_seq [re_Y, re_m, re_d, re_H, re_M] s = (toks, rest) # xs"
    using assms by (auto simp: strptime_ymdhm_def split: list.splits)
  then have "(toks, rest) \<in> set (re_seq [re_Y, re_m, re_d, re_H, re_M] s)" by simp
  then have "list_all2 (\<lambda>g t. \<exists>a\<in>set g. list_all2 (\<lambda>p c. p c) a t) [re_Y, re_m, re_d, re_H, re_M] toks"
    by (rule re_seq_mem)
  then obtain ty tm td th tmi where
    t: "toks = [ty, tm, td, th, tmi]" "\<exists>a\<in>set re_H. list_all2 (\<lambda>p c. p c) a th"
       "\<exists>a\<in>set re_M. list_all2 (\<lambda>p c. p c) a tmi"
    by (auto simp: list_all2_Cons1; blast)
  show ?thesis using assms r t re_H_value[OF t(2)] re_M_value[OF t(3)]
    by (auto simp: strptime_ymdhm_def wf_naive_def split: if_splits)
qed


lemma load_convert_sched:
  assumes "load_convert v = Inr t" "py_truthy (dict_get t ''schedule_time_utc'')"
  shows "\<exists>a. map_of t ''schedule_time_utc'' = Some (PDt a) \<and> utcoff a = 0 \<and> wf_naive (wall a)
           \<and> second (wall a) = 0 \<and> microsecond (wall a) = 0"
  using assms strptime_ymdhm_Inr
  by (auto simp: load_convert_def dict_setitem_def strptime_val_def
      split: pyval.splits if_splits sum.splits)

lemma load_convert_all_mem: "load_convert_all vs = Inr ds \<Longrightarrow> t \<in> set ds \<Longrightarrow> \<exists>v\<in>set vs. load_convert v = Inr t"
  by (induction vs arbitrary: ds) (auto simp: pbind_eq_Inr)

lemma load_filter_mem:
  "load_filter ds = Inr ts \<Longrightarrow> t \<in> set ts \<Longrightarrow> t \<in> set ds \<and> py_truthy (dict_get t ''schedule_time_utc'')"
  by (induction ds arbitrary: ts) (auto simp: pbind_eq_Inr dict_getitem_def dict_get_def split: if_splits)

lemma load_tasks_mem:
  assumes "t \<in> set (load_tasks f)"
  shows "\<exists>items v. f = Stored (PList items) \<and> v \<in> set items \<and> load_convert v = Inr t
           \<and> py_truthy (dict_get t ''schedule_time_utc'')"
proof -
  obtain data ts where b: "f = Stored data" "load_body data = Inr ts" "t \<in> set ts"
  proof -
    obtain data where f: "f = Stored data" using assms by (cases f) (simp_all add: load_tasks_def)
    show ?thesis
    proof (cases "load_body data")
      case (Inr ts)
      then show ?thesis using that assms f by (simp add: load_tasks_def)
    next
      case (Inl e)
      then show ?thesis using assms f by (simp add: load_tasks_def)
    qed
  qed
  then obtain items where i: "data = PList items" by (cases data) (auto simp: load_body_def split: if_splits)
  then obtain ds where ds: "load_convert_all items = Inr ds" "load_filter ds = Inr ts"
    using b by (auto simp: load_body_def pbind_eq_Inr)
  have "t \<in> set ds" "py_truthy (dict_get t ''schedule_time_utc'')" using load_filter_mem[OF ds(2) b(3)] by simp_all
  moreover obtain v where "v \<in> set items" "load_convert v = Inr t"
    using load_convert_all_mem[OF ds(1)] calculation(1) by blast
  ultimately show ?thesis using b(1) i by blast
qed

text \<open>C17: every task that _load_tasks returns has a schedule that is an aware UTC date-time with valid fields and zero seconds and microseconds.\<close>

theorem load_tasks_schedules:
  assumes "t \<in> set (load_tasks f)"
  shows "\<exists>a. map_of t ''schedule_time_utc'' = Some (PDt a) \<and> utcoff a = 0 \<and> wf_naive (wall a)
           \<and> second (wall a) = 0 \<and> microsecond (wall a) = 0"
  using load_tasks_mem[OF assms] load_convert_sched by blast

lemma load_convert_keyless:
  "map_of t ''schedule_time_utc'' = None \<Longrightarrow> load_convert (PDict t) = Inr t"
  by (simp add: load_convert_def)

lemma load_convert_all_dicts:
  "\<exists>ds'. load_convert_all (map PDict ds) = Inr ds'
     \<and> (\<forall>t\<in>set ds. map_of t ''schedule_time_utc'' = None \<longrightarrow> t \<in> set ds')"
proof (induction ds)
  case Nil
  then show ?case by simp
next
  case (Cons t ds)
  have "\<exists>t'. load_convert (PDict t) = Inr t' \<and> (map_of t ''schedule_time_utc'' = None \<longrightarrow> t' = t)"
    by (cases "map_of t ''schedule_time_utc''") (simp_all add: load_convert_def dict_get_def)
  then obtain t' where t': "load_convert (PDict t) = Inr t' \<and> (map_of t ''schedule_time_utc'' = None \<longrightarrow> t' = t)" ..
  obtain ds' where ds': "load_convert_all (map PDict ds) = Inr ds'"
      "\<forall>u\<in>set ds. map_of u ''schedule_time_utc'' = None \<longrightarrow> u \<in> set ds'"
    using Cons.IH by blast
  have "load_convert_all (map PDict (t # ds)) = Inr (t' # ds')" using t' ds'(1) by simp
  moreover have "\<forall>u\<in>set (t # ds). map_of u ''schedule_time_utc'' = None \<longrightarrow> u \<in> set (t' # ds')"
  proof (intro ballI impI)
    fix u
    assume "u \<in> set (t # ds)" "map_of u ''schedule_time_utc'' = None"
    then show "u \<in> set (t' # ds')" using t' ds'(2) by (cases "u = t") simp_all
  qed
  ultimately show ?case by (intro exI[of _ "t' # ds'"] conjI)
qed

lemma load_filter_keyless:
  "\<exists>t\<in>set ts. map_of t ''schedule_time_utc'' = None \<Longrightarrow> load_filter ts = Inl KeyError"
proof (induction ts)
  case Nil
  then show ?case by simp
next
  case (Cons t ts)
  show ?case
  proof (cases "map_of t ''schedule_time_utc''")
    case None
    then show ?thesis by simp
  next
    case (Some v)
    then have "load_filter ts = Inl KeyError" using Cons by auto
    then show ?thesis using Some by simp
  qed
qed

text \<open>C18: when one record of the file has no schedule_time_utc key, _load_tasks returns no task at all, not just without that record.\<close>

theorem load_missing_key_drops_all:
  assumes "\<exists>t\<in>set ds. map_of t ''schedule_time_utc'' = None"
  shows "load_tasks (Stored (PList (map PDict ds))) = []"
proof -
  obtain ds' where "load_convert_all (map PDict ds) = Inr ds'"
      "\<forall>t\<in>set ds. map_of t ''schedule_time_utc'' = None \<longrightarrow> t \<in> set ds'"
    using load_convert_all_dicts by blast
  moreover have "\<exists>t\<in>set ds'. map_of t ''schedule_time_utc'' = None" using assms calculation(2) by blast
  ultimately show ?thesis by (simp add: load_tasks_def load_body_def load_filter_keyless)
qed

section \<open>Witnesses\<close>

lemma sample_dt_text: "strftime_ymdhm sample_dt = ''202511100705''"
  by code_simp

lemma sample_dt_parse: "strptime_ymdhm ''202511100705'' = Inr sample_dt"
  by (simp add: strptime_ymdhm_def re_alt_def re_Y_def re_m_def re_d_def re_H_def re_M_def
      List.map_filter_simps dg_def py_eval valid_ymd_def days_in_month_def is_leap_def ymd_to_ord_def
      days_before_year_def days_before_month_def)

theorem schedule_format_roundtrip_witness:
  "\<exists>s. save_serialize [(''id'', PStr ''a1''), (''schedule_time_utc'', PDt sample_dt)]
       = Inr (dict_setitem [(''id'', PStr ''a1''), (''schedule_time_utc'', PDt sample_dt)] ''schedule_time_utc'' (PStr s))
     \<and> length s = 12 \<and> (\<forall>c\<in>set s. is_digit c) \<and> strptime_val (PStr s) = Inr sample_dt"
  using schedule_format_roundtrip[of "[(''id'', PStr ''a1''), (''schedule_time_utc'', PDt sample_dt)]" sample_dt]
  by (simp add: stored_dt_ok_def wf_naive_def)

theorem save_load_roundtrip_witness:
  "\<exists>f. save_tasks [[(''id'', PStr ''a1''), (''schedule_time_utc'', PDt sample_dt), (''repeat_type'', PStr ''once'')],
                    [(''id'', PStr ''a2''), (''schedule_time_utc'', PNone), (''repeat_type'', PStr ''harian'')]] = Inr f
     \<and> load_tasks f = [[(''id'', PStr ''a1''), (''schedule_time_utc'', PDt sample_dt), (''repeat_type'', PStr ''once'')]]"
  using save_load_roundtrip[of "[[(''id'', PStr ''a1''), (''schedule_time_utc'', PDt sample_dt), (''repeat_type'', PStr ''once'')],
                    [(''id'', PStr ''a2''), (''schedule_time_utc'', PNone), (''repeat_type'', PStr ''harian'')]]"]
  by (simp add: stored_task_ok_def stored_dt_ok_def wf_naive_def dict_get_def)

lemma sample_file_load:
  "load_tasks (Stored (PList [PDict [(''id'', PStr ''a1''), (''schedule_time_utc'', PStr ''202511100705'')]]))
     = [[(''id'', PStr ''a1''), (''schedule_time_utc'', PDt sample_dt)]]"
  by (simp add: load_tasks_def load_body_def load_convert_def strptime_val_def sample_dt_parse dict_get_def
      dict_setitem_def dict_getitem_def)

theorem load_tasks_schedules_witness:
  "\<exists>a. map_of [(''id'', PStr ''a1''), (''schedule_time_utc'', PDt sample_dt)] ''schedule_time_utc'' = Some (PDt a)
     \<and> utcoff a = 0 \<and> wf_naive (wall a) \<and> second (wall a) = 0 \<and> microsecond (wall a) = 0"
  using load_tasks_schedules[of "[(''id'', PStr ''a1''), (''schedule_time_utc'', PDt sample_dt)]"
      "Stored (PList [PDict [(''id'', PStr ''a1''), (''schedule_time_utc'', PStr ''202511100705'')]])"]
    sample_file_load
  by simp

theorem load_missing_key_drops_all_witness:
  "load_tasks (Stored (PList [PDict [(''id'', PStr ''a1''), (''schedule_time_utc'', PStr ''202511100705'')],
                             PDict [(''id'', PStr ''a2'')]])) = []"
  using load_missing_key_drops_all[of "[[(''id'', PStr ''a1''), (''schedule_time_utc'', PStr ''202511100705'')],
                             [(''id'', PStr ''a2'')]]"]
  by simp

end
