(* ===== verification/Scheduler.thy ===== *)
theory Scheduler
  imports TimeParser TaskStore
begin

text \<open>
  \<^verbatim>\<open>ChronoReply._scheduler_loop\<close> (\<^verbatim>\<open>src/chronoreply.py\<close>, lines 175--212). The
  loop runs on the asyncio event loop and suspends at \<^verbatim>\<open>await asyncio.sleep(5)\<close>
  and at \<^verbatim>\<open>await channel.send(...)\<close>; the command handlers run while it is
  suspended. The model therefore keeps the bot's objects in a heap: the task
  dictionaries (\<open>objs\<close>) and the Python lists (\<open>lists\<close>) are addressed by
  references, \<^verbatim>\<open>self.tasks\<close> is the reference \<open>tasks_ref\<close>, and the
  \<^verbatim>\<open>for\<close> loop iterates over the list object it started with, by index, as a
  Python list iterator does. One call of \<open>sched_step\<close> runs the loop from one
  suspension point to the next.
\<close>

section \<open>State\<close>

text \<open>The loop's suspension points: the \<^verbatim>\<open>sleep\<close> between ticks, and the
  \<^verbatim>\<open>send\<close> of the task at index \<open>i\<close> of list \<open>l\<close> (the task object \<open>r\<close>, the
  tick's \<open>now\<close>, the \<^verbatim>\<open>pending_delete\<close> list so far, the channel id and the
  content). \<open>Dead e\<close>: the background task ended with the uncaught exception \<open>e\<close>.\<close>

datatype loop_state =
    Idle
  | Sending nat nat aware "pyval list" nat pyval pyval
  | Dead py_error

text \<open>The replies the command handlers send with \<^verbatim>\<open>ctx.send\<close>
  (Theory \<open>Commands\<close>); each constructor names one reply of the source.\<close>

datatype reply =
    RUsageKirim | RBadChannel | RBadTime | RPast | RCreated pyval
  | RUsageUlang | RUsageHarian | RUsageMingguan | RBadRepeatType | RBadTimeOrChannel
  | RFirstRunFailed | RRepeatCreated pyval | RNoTasks | RTaskList "pydict list"
  | RUsageHapus | RDeleted string | RNotFound | RTimezone

text \<open>The environment: the clock readings in order (the \<open>n\<close>-th call of
  \<^verbatim>\<open>datetime.now\<close> reads \<open>clock n\<close>), the zone database, \<^verbatim>\<open>self.user.id\<close>,
  whether \<^verbatim>\<open>get_channel\<close> finds a channel, and whether the \<open>n\<close>-th
  \<^verbatim>\<open>send\<close> succeeds.\<close>

record world =
  clock :: "nat \<Rightarrow> instant"
  tz_db :: tzdb
  me :: pyval
  has_channel :: "pyval \<Rightarrow> bool"
  send_ok :: "nat \<Rightarrow> bool"

text \<open>The bot: the heap, \<^verbatim>\<open>self.tasks\<close>, the next fresh reference, the task
  file, the delivered messages (with the task object they came from), the counts
  of send attempts and clock readings, the loop's state and the replies.\<close>

record bot =
  objs :: "nat \<Rightarrow> pydict"
  lists :: "nat \<Rightarrow> nat list"
  tasks_ref :: nat
  fresh :: nat
  disk :: task_file
  sent :: "(nat \<times> pyval \<times> pyval) list"
  attempts :: nat
  reads :: nat
  loop :: loop_state
  replies :: "reply list"

text \<open>\<^verbatim>\<open>self.tasks\<close> as a list of dictionaries.\<close>

definition cur_tasks :: "bot \<Rightarrow> pydict list" where
  "cur_tasks st = map (objs st) (lists st (tasks_ref st))"

section \<open>One task of the scan\<close>

text \<open>\<^verbatim>\<open>schedule <= now\<close>: a date-time compares with \<open>now\<close>; any other truthy
  value raises \<^verbatim>\<open>TypeError\<close>.\<close>

definition py_le_dt :: "pyval \<Rightarrow> aware \<Rightarrow> bool py_result" where
  "py_le_dt v now = (case v of PDt a \<Rightarrow> Inr (aware_le a now) | _ \<Rightarrow> Inl TypeError)"

text \<open>The \<^verbatim>\<open>except Exception as e\<close> handler: its \<^verbatim>\<open>print\<close> reads
  \<^verbatim>\<open>task['id']\<close>, and a \<^verbatim>\<open>KeyError\<close> there leaves the loop.\<close>

definition except_handler :: "pydict \<Rightarrow> pyval list \<Rightarrow> bot \<Rightarrow> (py_error + pyval list) \<times> bot" where
  "except_handler task pending st =
     (case dict_getitem task ''id'' of Inl e \<Rightarrow> (Inl e, st) | Inr _ \<Rightarrow> (Inr pending, st))"

text \<open>The rest of the \<^verbatim>\<open>try\<close> body after the message went out (or after no
  channel was found): retire a one-shot task, reschedule a recurring one.\<close>

definition after_send :: "world \<Rightarrow> nat \<Rightarrow> pyval list \<Rightarrow> bot \<Rightarrow> (py_error + pyval list) \<times> bot" where
  "after_send w r pending st =
     (let task = objs st r in
      case dict_getitem task ''repeat_type'' of
        Inl _ \<Rightarrow> except_handler task pending st
      | Inr rt \<Rightarrow>
          if py_eq rt (PStr ''once'') then
            (case dict_getitem task ''id'' of
               Inl _ \<Rightarrow> except_handler task pending st
             | Inr tid \<Rightarrow> (Inr (pending @ [tid]), st))
          else
            (let u = clock w (reads st);
                 st1 = st\<lparr>reads := Suc (reads st)\<rparr>
             in case calculate_next_repeat (tz_db w) u task of
                  Inl _ \<Rightarrow> except_handler task pending st1
                | Inr nr \<Rightarrow>
                    (Inr pending,
                     st1\<lparr>objs := (objs st1)(r := dict_setitem task ''schedule_time_utc''
                                                (case nr of None \<Rightarrow> PNone | Some d \<Rightarrow> PDt d))\<rparr>)))"

text \<open>What the synchronous part of one iteration ends in: the next iteration
  (with the pending list), the \<^verbatim>\<open>await channel.send\<close>, or an exception that
  leaves the loop.\<close>

datatype visit_out = Next "pyval list" | Await pyval pyval | Crash py_error

definition of_handled :: "(py_error + pyval list) \<times> bot \<Rightarrow> visit_out \<times> bot" where
  "of_handled x = (case x of (Inl e, st) \<Rightarrow> (Crash e, st) | (Inr p, st) \<Rightarrow> (Next p, st))"

text \<open>The \<^verbatim>\<open>try\<close> body up to the \<^verbatim>\<open>await\<close>.\<close>

definition fire :: "world \<Rightarrow> nat \<Rightarrow> pyval list \<Rightarrow> bot \<Rightarrow> visit_out \<times> bot" where
  "fire w r pending st =
     (let task = objs st r in
      case dict_getitem task ''channel_id'' of
        Inl _ \<Rightarrow> of_handled (except_handler task pending st)
      | Inr cid \<Rightarrow>
          if has_channel w cid then
            (case dict_getitem task ''content'' of
               Inl _ \<Rightarrow> of_handled (except_handler task pending st)
             | Inr c \<Rightarrow> (Await cid c, st))
          else of_handled (after_send w r pending st))"

text \<open>One iteration of \<^verbatim>\<open>for task in self.tasks\<close> up to its first suspension:
  the owner and schedule lookups and the comparison are outside the \<^verbatim>\<open>try\<close>.\<close>

definition visit :: "world \<Rightarrow> aware \<Rightarrow> nat \<Rightarrow> pyval list \<Rightarrow> bot \<Rightarrow> visit_out \<times> bot" where
  "visit w now r pending st =
     (let task = objs st r in
      case dict_getitem task ''user_id'' of
        Inl e \<Rightarrow> (Crash e, st)
      | Inr uid \<Rightarrow>
          if \<not> py_eq uid (me w) then (Next pending, st)
          else
            (case dict_getitem task ''schedule_time_utc'' of
               Inl e \<Rightarrow> (Crash e, st)
             | Inr s \<Rightarrow>
                 if \<not> py_truthy s then (Next pending, st)
                 else
                   (case py_le_dt s now of
                      Inl e \<Rightarrow> (Crash e, st)
                    | Inr due \<Rightarrow> if due then fire w r pending st else (Next pending, st))))"

section \<open>End of a tick\<close>

text \<open>\<^verbatim>\<open>[t for t in self.tasks if t["id"] not in pending_delete]\<close>.\<close>

fun filter_pending :: "(nat \<Rightarrow> pydict) \<Rightarrow> nat list \<Rightarrow> pyval list \<Rightarrow> nat list py_result" where
  "filter_pending h [] pending = Inr []"
| "filter_pending h (r # rs) pending =
     pbind (dict_getitem (h r) ''id'') (\<lambda>tid.
       pbind (filter_pending h rs pending) (\<lambda>keep.
         Inr (if py_in tid pending then keep else r # keep)))"

text \<open>\<^verbatim>\<open>if pending_delete: self.tasks = [...]; self.save_tasks()\<close>; the new list
  is a fresh object.\<close>

definition finish_tick :: "pyval list \<Rightarrow> bot \<Rightarrow> bot" where
  "finish_tick pending st =
     (if pending = [] then st\<lparr>loop := Idle\<rparr>
      else
        (case filter_pending (objs st) (lists st (tasks_ref st)) pending of
           Inl e \<Rightarrow> st\<lparr>loop := Dead e\<rparr>
         | Inr keep \<Rightarrow>
             (let l = fresh st;
                  st1 = st\<lparr>lists := (lists st)(l := keep), tasks_ref := l, fresh := Suc l\<rparr>
              in case save_tasks (map (objs st1) keep) of
                   Inl e \<Rightarrow> st1\<lparr>loop := Dead e\<rparr>
                 | Inr f \<Rightarrow> st1\<lparr>disk := f, loop := Idle\<rparr>)))"

section \<open>The loop\<close>

text \<open>The scan over the remaining references \<open>rs\<close> of list \<open>l\<close>, from index
  \<open>i\<close>, until the next \<^verbatim>\<open>await\<close> or the end of the tick. No other code runs
  during it, so the list does not change and the remaining references can be taken
  at its start.\<close>

fun scan_refs :: "world \<Rightarrow> aware \<Rightarrow> nat \<Rightarrow> nat \<Rightarrow> nat list \<Rightarrow> pyval list \<Rightarrow> bot \<Rightarrow> bot" where
  "scan_refs w now l i [] pending st = finish_tick pending st"
| "scan_refs w now l i (r # rs) pending st =
     (case visit w now r pending st of
        (Next p, st') \<Rightarrow> scan_refs w now l (Suc i) rs p st'
      | (Await cid c, st') \<Rightarrow> st'\<lparr>loop := Sending l i now pending r cid c\<rparr>
      | (Crash e, st') \<Rightarrow> st'\<lparr>loop := Dead e\<rparr>)"

text \<open>The resumption after \<^verbatim>\<open>await channel.send(...)\<close>: the send succeeds or
  raises, as the environment decides for this attempt.\<close>

definition resume_send :: "world \<Rightarrow> nat \<Rightarrow> pyval list \<Rightarrow> pyval \<Rightarrow> pyval \<Rightarrow> bot \<Rightarrow> (py_error + pyval list) \<times> bot" where
  "resume_send w r pending cid c st =
     (let st1 = st\<lparr>attempts := Suc (attempts st)\<rparr> in
      if send_ok w (attempts st) then after_send w r pending (st1\<lparr>sent := sent st1 @ [(r, cid, c)]\<rparr>)
      else except_handler (objs st1 r) pending st1)"

text \<open>One segment of the loop between two suspension points. From the
  \<^verbatim>\<open>sleep\<close>: read \<^verbatim>\<open>now = datetime.now(pytz.utc)\<close> once and scan
  \<^verbatim>\<open>self.tasks\<close>; from a \<^verbatim>\<open>send\<close>: finish that task and go on with the
  same list object, whose current content is read again (a list iterator sees
  elements appended meanwhile).\<close>

definition sched_step :: "world \<Rightarrow> bot \<Rightarrow> bot" where
  "sched_step w st =
     (case loop st of
        Idle \<Rightarrow>
          (let u = clock w (reads st);
               st1 = st\<lparr>reads := Suc (reads st)\<rparr>;
               l = tasks_ref st
           in scan_refs w (now_in (\<lambda>_. 0) u) l 0 (lists st l) [] st1)
      | Sending l i now pending r cid c \<Rightarrow>
          (case resume_send w r pending cid c st of
             (Inl e, st2) \<Rightarrow> st2\<lparr>loop := Dead e\<rparr>
           | (Inr p, st2) \<Rightarrow> scan_refs w now l (Suc i) (drop (Suc i) (lists st2 l)) p st2)
      | Dead e \<Rightarrow> st)"

section \<open>Predicates on tasks\<close>

text \<open>A task the scan passes over: its owner is another user.\<close>

definition not_mine :: "world \<Rightarrow> pydict \<Rightarrow> bool" where
  "not_mine w t \<longleftrightarrow> (case map_of t ''user_id'' of Some v \<Rightarrow> \<not> py_eq v (me w) | None \<Rightarrow> False)"

text \<open>A task the scan sends at \<open>now\<close>: owned by the session, due, with a
  channel that \<^verbatim>\<open>get_channel\<close> finds and a content.\<close>

definition sendable :: "world \<Rightarrow> aware \<Rightarrow> pydict \<Rightarrow> bool" where
  "sendable w now t \<longleftrightarrow>
     (case (map_of t ''user_id'', map_of t ''schedule_time_utc'') of
        (Some uid, Some (PDt a)) \<Rightarrow> py_eq uid (me w) \<and> aware_le a now
      | _ \<Rightarrow> False)
     \<and> (case map_of t ''channel_id'' of Some cid \<Rightarrow> has_channel w cid | None \<Rightarrow> False)
     \<and> map_of t ''content'' \<noteq> None"

text \<open>The loop left to itself for at most \<open>n\<close> segments: it stops at the
  end of the tick (\<^verbatim>\<open>sleep\<close>) or when it dies.\<close>

fun run_sched :: "nat \<Rightarrow> world \<Rightarrow> bot \<Rightarrow> bot" where
  "run_sched 0 w st = st"
| "run_sched (Suc n) w st =
     (let st' = sched_step w st in
      case loop st' of Sending _ _ _ _ _ _ _ \<Rightarrow> run_sched n w st' | _ \<Rightarrow> st')"

text \<open>Two states agree except on the task object \<open>r\<close>: what one task's
  processing may change.\<close>

definition frame :: "nat \<Rightarrow> bot \<Rightarrow> bot \<Rightarrow> bool" where
  "frame r st st' \<longleftrightarrow> lists st' = lists st \<and> tasks_ref st' = tasks_ref st \<and> fresh st' = fresh st
     \<and> disk st' = disk st \<and> loop st' = loop st \<and> replies st' = replies st
     \<and> (\<forall>r'. r' \<noteq> r \<longrightarrow> objs st' r' = objs st r')"

text \<open>Two heaps agree on every key but the schedule: the only key the loop writes.\<close>

definition same_keys :: "(nat \<Rightarrow> pydict) \<Rightarrow> (nat \<Rightarrow> pydict) \<Rightarrow> bool" where
  "same_keys h h' \<longleftrightarrow> (\<forall>x k. k \<noteq> ''schedule_time_utc'' \<longrightarrow> map_of (h' x) k = map_of (h x) k)"

section \<open>Sample states\<close>

text \<open>A clock that stays at Monday 2025-11-10 10:00 in Jakarta, a session user 7,
  every channel found, and one task object at reference 0 in list 0.\<close>

abbreviation early_dt :: aware where
  "early_dt \<equiv> \<lparr>wall = \<lparr>dord = 739565, hour = 2, minute = 0, second = 0, microsecond = 0\<rparr>, utcoff = 0\<rparr>"

abbreviation sample_world :: "bool \<Rightarrow> world" where
  "sample_world ok \<equiv> \<lparr>clock = (\<lambda>_. mon_10am), tz_db = wib_db, me = PInt 7,
     has_channel = (\<lambda>_. True), send_ok = (\<lambda>_. ok)\<rparr>"

abbreviation sample_task :: "string \<Rightarrow> pyval \<Rightarrow> pydict" where
  "sample_task rt v \<equiv> [(''id'', PStr ''a1''), (''user_id'', PInt 7), (''channel_id'', PInt 55),
     (''content'', PStr ''hi''), (''repeat_type'', PStr rt), (''repeat_value'', PStr ''09:30''),
     (''schedule_time_utc'', v), (''timezone'', PStr ''Asia/Jakarta'')]"

abbreviation bot_with :: "pydict \<Rightarrow> bot" where
  "bot_with t \<equiv> \<lparr>objs = (\<lambda>_. [])(0 := t), lists = (\<lambda>_. [])(0 := [0]), tasks_ref = 0, fresh = 1,
     disk = NoFile, sent = [], attempts = 0, reads = 0, loop = Idle, replies = []\<rparr>"

section \<open>Facts\<close>

lemma frame_refl [simp]: "frame r st st"
  by (simp add: frame_def)

lemma frame_trans: "frame r st st' \<Longrightarrow> frame r st' st'' \<Longrightarrow> frame r st st''"
  by (simp add: frame_def)

lemma except_handler_frame: "except_handler t p st = (x, st') \<Longrightarrow> st' = st"
  by (auto simp: except_handler_def split: sum.splits)

lemma after_send_frame: "after_send w r p st = (x, st') \<Longrightarrow> frame r st st'"
  by (auto simp: after_send_def Let_def frame_def dest!: except_handler_frame
      split: sum.splits if_splits)

lemma except_handler_snd [simp]: "snd (except_handler t p st) = st"
  by (simp add: except_handler_def split: sum.splits)

lemma after_send_snd: "frame r st (snd (after_send w r p st))"
  by (cases "after_send w r p st") (simp add: after_send_frame)

lemma of_handled_snd [simp]: "snd (of_handled y) = snd y"
  by (auto simp: of_handled_def split: prod.splits sum.splits)

lemma of_handled_frame: "of_handled y = (x, st') \<Longrightarrow> snd y = st'"
  by (auto simp: of_handled_def split: prod.splits sum.splits)

lemma fire_frame:
  assumes a: "fire w r p st = (x, st')"
  shows "frame r st st'"
proof -
  have "frame r st (snd (fire w r p st))"
    by (auto simp: fire_def Let_def after_send_snd split: sum.splits)
  then show ?thesis using a by simp
qed

lemma visit_frame: "visit w now r p st = (x, st') \<Longrightarrow> frame r st st'"
  by (auto simp: visit_def Let_def dest!: fire_frame split: sum.splits if_splits)


lemma finish_tick_loop: "loop (finish_tick p st) = Idle \<or> (\<exists>e. loop (finish_tick p st) = Dead e)"
  by (auto simp: finish_tick_def Let_def split: sum.splits)

lemma scan_refs_sending:
  assumes "loop (scan_refs w now l i rs p st) = Sending l' j now' p' r cid c"
  shows "l' = l \<and> i \<le> j \<and> j < i + length rs \<and> lists (scan_refs w now l i rs p st) = lists st"
  using assms
proof (induction rs arbitrary: i p st)
  case Nil
  then show ?case using finish_tick_loop[of p st] by auto
next
  case (Cons r0 rs)
  obtain x st' where v: "visit w now r0 p st = (x, st')" by fastforce
  have f: "lists st' = lists st" using visit_frame[OF v] by (simp add: frame_def)
  show ?case
  proof (cases x)
    case (Next p1)
    then show ?thesis using Cons.prems Cons.IH[of "Suc i" p1 st'] v f by auto
  next
    case (Await a b)
    then show ?thesis using Cons.prems v f by auto
  next
    case (Crash e)
    then show ?thesis using Cons.prems v by auto
  qed
qed

lemma resume_send_lists: "resume_send w r p cid c st = (x, st') \<Longrightarrow> lists st' = lists st"
  by (auto simp: resume_send_def Let_def dest!: except_handler_frame after_send_frame
      split: if_splits) (auto simp: frame_def)

lemma sched_step_Idle_sending:
  assumes "loop st = Idle" and "loop (sched_step w st) = Sending l j now p r cid c"
  shows "l = tasks_ref st \<and> j < length (lists st l) \<and> lists (sched_step w st) = lists st"
proof -
  have "loop (scan_refs w (now_in (\<lambda>_. 0) (clock w (reads st))) (tasks_ref st) 0 (lists st (tasks_ref st)) []
      (st\<lparr>reads := Suc (reads st)\<rparr>)) = Sending l j now p r cid c"
    using assms by (simp add: sched_step_def Let_def)
  from scan_refs_sending[OF this] show ?thesis using assms(1) by (simp add: sched_step_def Let_def)
qed

lemma sched_step_Sending_sending:
  assumes "loop st = Sending l j now p r cid c" and "loop (sched_step w st) = Sending l' j' now' p' r' cid' c'"
  shows "l' = l \<and> j < j' \<and> j' < length (lists st l) \<and> lists (sched_step w st) = lists st"
proof -
  obtain x st2 where rs: "resume_send w r p cid c st = (x, st2)" by fastforce
  have ls: "lists st2 = lists st" using resume_send_lists[OF rs] .
  show ?thesis
  proof (cases x)
    case (Inl e)
    then show ?thesis using assms rs by (simp add: sched_step_def)
  next
    case (Inr p2)
    then have "loop (scan_refs w now l (Suc j) (drop (Suc j) (lists st2 l)) p2 st2) = Sending l' j' now' p' r' cid' c'"
      using assms rs by (simp add: sched_step_def)
    from scan_refs_sending[OF this] have "l' = l \<and> Suc j \<le> j' \<and> j' < Suc j + length (drop (Suc j) (lists st2 l))
        \<and> lists (sched_step w st) = lists st2"
      using assms rs Inr by (simp add: sched_step_def)
    then show ?thesis using ls by auto
  qed
qed

lemma run_sched_from_sending:
  "loop st = Sending l j now p r cid c \<Longrightarrow> j < length (lists st l) \<Longrightarrow> length (lists st l) - j \<le> k \<Longrightarrow>
   loop (run_sched k w st) = Idle \<or> (\<exists>e. loop (run_sched k w st) = Dead e)"
proof (induction k arbitrary: st l j now p r cid c)
  case 0
  then show ?case by simp
next
  case (Suc k)
  show ?case
  proof (cases "loop (sched_step w st)")
    case (Sending l' j' now' p' r' cid' c')
    note s = sched_step_Sending_sending[OF Suc.prems(1) this]
    have "loop (run_sched k w (sched_step w st)) = Idle \<or> (\<exists>e. loop (run_sched k w (sched_step w st)) = Dead e)"
      using Suc.IH[OF Sending] s Suc.prems(2,3) by auto
    then show ?thesis using Sending by simp
  qed simp_all
qed

text \<open>C19: a tick left to run without interruption ends: from the sleep, at most one segment per task of the list plus one bring the loop back to the sleep or to its death, so the loop never stays in a tick forever.\<close>

theorem tick_terminates:
  assumes "loop st = Idle"
  shows "loop (run_sched (Suc (length (lists st (tasks_ref st)))) w st) = Idle
     \<or> (\<exists>e. loop (run_sched (Suc (length (lists st (tasks_ref st)))) w st) = Dead e)"
proof (cases "loop (sched_step w st)")
  case (Sending l j now p r cid c)
  note s = sched_step_Idle_sending[OF assms this]
  then show ?thesis using run_sched_from_sending[OF Sending, of "length (lists st (tasks_ref st))" w] Sending
    by auto
qed simp_all

lemma calculate_next_repeat_future:
  assumes "calculate_next_repeat db u task = Inr (Some d)"
  shows "u < utc_us d \<and> utcoff d = 0 \<and> second (wall d) = 0 \<and> microsecond (wall d) = 0"
proof -
  obtain tz h m rt where tz: "pbind (dict_getitem task ''timezone'') (py_timezone db) = Inr tz"
    and hm: "pbind (dict_getitem task ''repeat_value'') hm_val = Inr (h, m)"
    and rt: "dict_getitem task ''repeat_type'' = Inr rt"
    using assms by (auto simp: calculate_next_repeat_def Let_def pbind_eq_Inr split: prod.splits)
  have c: "(if py_eq rt (PStr ''harian'') then pbind (next_daily (now_in tz u) h m) (\<lambda>r. Inr (Some r))
        else if py_eq rt (PStr ''mingguan'') then
          pbind (pbind (dict_getitem task ''repeat_day'') lower_val) (\<lambda>day_name.
            if day_name \<notin> set hari then Inr None
            else pbind (next_weekly (now_in tz u) (int (py_index hari day_name)) h m) (\<lambda>r. Inr (Some r)))
        else Inr None) = Inr (Some d)"
    using assms tz hm rt by (simp add: calculate_next_repeat_def Let_def)
  have wm: "second (wall (as_utc x)) = 0 \<and> microsecond (wall (as_utc x)) = 0 \<and> utcoff (as_utc x) = 0"
    if "second (wall x) = 0" "microsecond (wall x) = 0" for x
    using as_utc_whole_minute that by blast
  show ?thesis
  proof (cases "py_eq rt (PStr ''harian'')")
    case True
    then have n: "next_daily (now_in tz u) h m = Inr d" using c by (auto simp: pbind_eq_Inr)
    have "u < utc_us d" using next_daily_future[OF wf_now_in n] by simp
    moreover have "utcoff d = 0 \<and> second (wall d) = 0 \<and> microsecond (wall d) = 0"
      using n wm by (auto simp: next_daily_def pbind_eq_Inr replace_hm_eq_Inr)
    ultimately show ?thesis by simp
  next
    case False
    then obtain day where day: "day \<in> set hari"
      and n: "next_weekly (now_in tz u) (int (py_index hari day)) h m = Inr d"
      using c by (auto simp: pbind_eq_Inr split: if_splits)
    have "u < utc_us d"
      using next_weekly_future[OF wf_now_in _ _ n] py_index_less[OF day] by (simp add: hari_def)
    moreover have "utcoff d = 0 \<and> second (wall d) = 0 \<and> microsecond (wall d) = 0"
      using n wm by (auto simp: next_weekly_def Let_def pbind_eq_Inr replace_hm_eq_Inr)
    ultimately show ?thesis by simp
  qed
qed

lemma visit_not_mine: "not_mine w (objs st r) \<Longrightarrow> visit w now r p st = (Next p, st)"
  by (auto simp: visit_def not_mine_def split: option.splits)

lemma scan_skip:
  "\<forall>x\<in>set xs. not_mine w (objs st x) \<Longrightarrow>
     scan_refs w now l i (xs @ rs) p st = scan_refs w now l (i + length xs) rs p st"
  by (induction xs arbitrary: i) (auto simp: visit_not_mine)

lemma sendable_fields:
  assumes "sendable w now t"
  shows "\<exists>uid a. map_of t ''user_id'' = Some uid \<and> py_eq uid (me w)
      \<and> map_of t ''schedule_time_utc'' = Some (PDt a) \<and> aware_le a now"
    "map_of t ''channel_id'' = Some (dict_get t ''channel_id'')" "has_channel w (dict_get t ''channel_id'')"
    "map_of t ''content'' = Some (dict_get t ''content'')"
proof -
  have o: "case (map_of t ''user_id'', map_of t ''schedule_time_utc'') of
        (Some uid, Some (PDt a)) \<Rightarrow> py_eq uid (me w) \<and> aware_le a now | _ \<Rightarrow> False"
    and c: "case map_of t ''channel_id'' of Some cid \<Rightarrow> has_channel w cid | None \<Rightarrow> False"
    and m: "map_of t ''content'' \<noteq> None"
    using assms by (simp_all add: sendable_def)
  obtain uid v where u: "map_of t ''user_id'' = Some uid" and v: "map_of t ''schedule_time_utc'' = Some v"
    using o by (cases "map_of t ''user_id''"; cases "map_of t ''schedule_time_utc''") simp_all
  obtain a where "v = PDt a" using o u v by (cases v) simp_all
  then show "\<exists>uid a. map_of t ''user_id'' = Some uid \<and> py_eq uid (me w)
      \<and> map_of t ''schedule_time_utc'' = Some (PDt a) \<and> aware_le a now"
    using o u v by simp
  show "map_of t ''channel_id'' = Some (dict_get t ''channel_id'')" "has_channel w (dict_get t ''channel_id'')"
    using c by (cases "map_of t ''channel_id''"; simp add: dict_get_def)+
  show "map_of t ''content'' = Some (dict_get t ''content'')"
    using m by (cases "map_of t ''content''") (simp_all add: dict_get_def)
qed

lemma sendable_not_not_mine: "sendable w now t \<Longrightarrow> \<not> not_mine w t"
  using sendable_fields(1)[of w now t] by (auto simp: not_mine_def)

lemma visit_sendable:
  assumes "sendable w now (objs st r)"
  shows "visit w now r p st = (Await (dict_get (objs st r) ''channel_id'') (dict_get (objs st r) ''content''), st)"
proof -
  obtain uid a where "map_of (objs st r) ''user_id'' = Some uid" "py_eq uid (me w)"
      "map_of (objs st r) ''schedule_time_utc'' = Some (PDt a)" "aware_le a now"
    using sendable_fields(1)[OF assms] by blast
  moreover obtain cid c where "map_of (objs st r) ''channel_id'' = Some cid" "has_channel w cid"
      "map_of (objs st r) ''content'' = Some c"
    using sendable_fields(2-4)[OF assms] by metis
  ultimately show ?thesis by (simp add: visit_def fire_def py_le_dt_def)
qed

lemma sched_step_to_send:
  assumes "loop st = Idle" "lists st (tasks_ref st) = xs @ r # ys"
    and "\<forall>x\<in>set xs. not_mine w (objs st x)"
    and "sendable w (now_in (\<lambda>_. 0) (clock w (reads st))) (objs st r)"
  shows "sched_step w st = st\<lparr>reads := Suc (reads st),
     loop := Sending (tasks_ref st) (length xs) (now_in (\<lambda>_. 0) (clock w (reads st))) [] r
               (dict_get (objs st r) ''channel_id'') (dict_get (objs st r) ''content'')\<rparr>"
proof -
  let ?st1 = "st\<lparr>reads := Suc (reads st)\<rparr>" and ?now = "now_in (\<lambda>_. 0) (clock w (reads st))"
  have "sched_step w st = scan_refs w ?now (tasks_ref st) 0 (xs @ r # ys) [] ?st1"
    using assms(1,2) by (simp add: sched_step_def Let_def)
  also have "\<dots> = scan_refs w ?now (tasks_ref st) (length xs) (r # ys) [] ?st1"
    using scan_skip[of xs w ?st1] assms(3) by simp
  also have "\<dots> = ?st1\<lparr>loop := Sending (tasks_ref st) (length xs) ?now [] r
               (dict_get (objs st r) ''channel_id'') (dict_get (objs st r) ''content'')\<rparr>"
    using visit_sendable[of w ?now ?st1 r "[]"] assms(4) by simp
  finally show ?thesis by simp
qed

lemma sched_step_after_send:
  assumes "loop st = Sending l (length xs) now p r cid c" "lists st l = xs @ r # ys"
    and "resume_send w r p cid c st = (Inr p', st2)"
    and "\<forall>x\<in>set ys. not_mine w (objs st2 x)"
  shows "sched_step w st = finish_tick p' st2"
proof -
  have "lists st2 = lists st" using resume_send_lists[OF assms(3)] .
  then show ?thesis using assms scan_skip[of ys w st2 now l "Suc (length xs)" "[]" p']
    by (simp add: sched_step_def)
qed

lemma run_sched_two:
  assumes "loop (sched_step w st) = Sending l i now p r cid c"
    and "loop (sched_step w (sched_step w st)) = Idle"
  shows "run_sched 2 w st = sched_step w (sched_step w st)"
  using assms by (simp add: numeral_2_eq_2 Let_def)

lemma filter_pending_ids:
  "\<forall>x\<in>set rs. map_of (h x) ''id'' \<noteq> None \<Longrightarrow>
     filter_pending h rs p = Inr (filter (\<lambda>x. \<not> py_in (dict_get (h x) ''id'') p) rs)"
  by (induction rs) (auto simp: dict_getitem_def dict_get_def)

lemma resume_once_ok:
  assumes "send_ok w (attempts st)" "map_of (objs st r) ''repeat_type'' = Some (PStr ''once'')"
    "map_of (objs st r) ''id'' = Some tid"
  shows "resume_send w r p cid c st
     = (Inr (p @ [tid]), st\<lparr>attempts := Suc (attempts st), sent := sent st @ [(r, cid, c)]\<rparr>)"
  using assms by (simp add: resume_send_def after_send_def Let_def)

lemma resume_fail:
  assumes "\<not> send_ok w (attempts st)" "map_of (objs st r) ''id'' = Some tid"
  shows "resume_send w r p cid c st = (Inr p, st\<lparr>attempts := Suc (attempts st)\<rparr>)"
  using assms by (simp add: resume_send_def except_handler_def)

lemma resume_repeat_ok:
  assumes "send_ok w (attempts st)" "map_of (objs st r) ''repeat_type'' = Some rt" "\<not> py_eq rt (PStr ''once'')"
    "calculate_next_repeat (tz_db w) (clock w (reads st)) (objs st r) = Inr nr"
  shows "resume_send w r p cid c st
     = (Inr p, st\<lparr>attempts := Suc (attempts st), sent := sent st @ [(r, cid, c)], reads := Suc (reads st),
          objs := (objs st)(r := dict_setitem (objs st r) ''schedule_time_utc''
                                   (case nr of None \<Rightarrow> PNone | Some d \<Rightarrow> PDt d))\<rparr>)"
  using assms by (simp add: resume_send_def after_send_def Let_def)

lemma save_tasks_stored:
  "\<forall>t\<in>set ts. stored_task_ok t \<Longrightarrow> \<exists>f. save_tasks ts = Inr f"
  by (simp add: save_tasks_def save_serialize_all_stored)

text \<open>C20: a due one-shot task of the session, reached after tasks of other users, is sent exactly once in the tick, is no longer in self.tasks afterwards, and the task file then holds the saved store.\<close>

theorem tick_once_task:
  assumes "loop st = Idle" "lists st (tasks_ref st) = xs @ r # ys"
    and "\<forall>x\<in>set (xs @ ys). not_mine w (objs st x) \<and> map_of (objs st x) ''id'' \<noteq> None"
    and "sendable w (now_in (\<lambda>_. 0) (clock w (reads st))) (objs st r)"
    and "map_of (objs st r) ''repeat_type'' = Some (PStr ''once'')" "map_of (objs st r) ''id'' = Some (PStr tid)"
    and "send_ok w (attempts st)"
    and "\<forall>x\<in>set (xs @ r # ys). stored_task_ok (objs st x)"
    and "st' = run_sched 2 w st"
  shows "loop st' = Idle
    \<and> sent st' = sent st @ [(r, dict_get (objs st r) ''channel_id'', dict_get (objs st r) ''content'')]
    \<and> r \<notin> set (lists st' (tasks_ref st'))
    \<and> save_tasks (cur_tasks st') = Inr (disk st')"
proof -
  let ?now = "now_in (\<lambda>_. 0) (clock w (reads st))" and ?cid = "dict_get (objs st r) ''channel_id''"
    and ?c = "dict_get (objs st r) ''content''" and ?l = "tasks_ref st"
  define st1 where "st1 = sched_step w st"
  have s1: "st1 = st\<lparr>reads := Suc (reads st), loop := Sending ?l (length xs) ?now [] r ?cid ?c\<rparr>"
    using sched_step_to_send[OF assms(1,2) _ assms(4)] assms(3) by (simp add: st1_def)
  define st2 where "st2 = st1\<lparr>attempts := Suc (attempts st1), sent := sent st1 @ [(r, ?cid, ?c)]\<rparr>"
  have rs: "resume_send w r [] ?cid ?c st1 = (Inr [PStr tid], st2)"
    using resume_once_ok[of w st1 r "PStr tid" "[]" ?cid ?c] assms(5-7) by (simp add: s1 st2_def)
  have ys: "\<forall>x\<in>set ys. not_mine w (objs st2 x)" using assms(3) by (simp add: st2_def s1)
  have st2_step: "sched_step w st1 = finish_tick [PStr tid] st2"
    using sched_step_after_send[of st1 ?l xs ?now "[]" r ?cid ?c ys w "[PStr tid]" st2] s1 assms(2) rs ys by simp
  define keep where "keep = filter (\<lambda>x. \<not> py_in (dict_get (objs st x) ''id'') [PStr tid]) (xs @ r # ys)"
  have ids: "\<forall>x\<in>set (xs @ r # ys). map_of (objs st x) ''id'' \<noteq> None" using assms(3,6) by auto
  have fp: "filter_pending (objs st2) (lists st2 (tasks_ref st2)) [PStr tid] = Inr keep"
    using filter_pending_ids[OF ids, of "[PStr tid]"] assms(2) by (simp add: st2_def s1 keep_def)
  have "set keep \<subseteq> set (xs @ r # ys)" unfolding keep_def by (rule filter_is_subset)
  then have "\<forall>t\<in>set (map (objs st) keep). stored_task_ok t" using assms(8) by auto
  then obtain f where f: "save_tasks (map (objs st) keep) = Inr f" using save_tasks_stored by blast
  have st3: "sched_step w st1 = st2\<lparr>lists := (lists st2)(fresh st2 := keep), tasks_ref := fresh st2,
      fresh := Suc (fresh st2), disk := f, loop := Idle\<rparr>"
    using st2_step fp f by (simp add: finish_tick_def Let_def st2_def s1)
  have r2: "run_sched 2 w st = sched_step w st1"
    using run_sched_two[of w st] s1 st3 by (simp add: st1_def)
  have "r \<notin> set keep" using assms(6) by (simp add: keep_def py_in_def dict_get_def)
  then show ?thesis using assms(9) r2 st3 f by (simp add: st2_def s1 cur_tasks_def)
qed

lemma aware_le_utc_now: "aware_le a (now_in (\<lambda>_. 0) u) \<longleftrightarrow> utc_us a \<le> u"
  by (simp add: aware_le_def)

lemma sendable_later:
  assumes "sendable w (now_in (\<lambda>_. 0) u) t" "u \<le> u'"
  shows "sendable w (now_in (\<lambda>_. 0) u') t"
  using assms by (auto simp: sendable_def aware_le_utc_now split: option.splits pyval.splits)

text \<open>C21: when channel.send raises, the task is neither retired nor rescheduled and nothing is saved: the occurrence is not consumed and the task is due again at every later tick.\<close>

theorem tick_failed_send_not_consumed:
  assumes "loop st = Idle" "lists st (tasks_ref st) = xs @ r # ys"
    and "\<forall>x\<in>set (xs @ ys). not_mine w (objs st x)"
    and "sendable w (now_in (\<lambda>_. 0) (clock w (reads st))) (objs st r)"
    and "map_of (objs st r) ''id'' = Some tid"
    and "\<not> send_ok w (attempts st)"
    and "st' = run_sched 2 w st"
  shows "loop st' = Idle \<and> sent st' = sent st \<and> objs st' = objs st \<and> disk st' = disk st
    \<and> lists st' (tasks_ref st') = xs @ r # ys
    \<and> (\<forall>u \<ge> clock w (reads st). sendable w (now_in (\<lambda>_. 0) u) (objs st' r))"
proof -
  let ?now = "now_in (\<lambda>_. 0) (clock w (reads st))" and ?cid = "dict_get (objs st r) ''channel_id''"
    and ?c = "dict_get (objs st r) ''content''" and ?l = "tasks_ref st"
  define st1 where "st1 = sched_step w st"
  have s1: "st1 = st\<lparr>reads := Suc (reads st), loop := Sending ?l (length xs) ?now [] r ?cid ?c\<rparr>"
    using sched_step_to_send[OF assms(1,2) _ assms(4)] assms(3) by (simp add: st1_def)
  define st2 where "st2 = st1\<lparr>attempts := Suc (attempts st1)\<rparr>"
  have rs: "resume_send w r [] ?cid ?c st1 = (Inr [], st2)"
    using resume_fail[of w st1 r tid "[]" ?cid ?c] assms(5,6) by (simp add: s1 st2_def)
  have ys: "\<forall>x\<in>set ys. not_mine w (objs st2 x)" using assms(3) by (simp add: st2_def s1)
  have st3: "sched_step w st1 = st2\<lparr>loop := Idle\<rparr>"
    using sched_step_after_send[of st1 ?l xs ?now "[]" r ?cid ?c ys w "[]" st2] s1 assms(2) rs ys
    by (simp add: finish_tick_def)
  have r2: "run_sched 2 w st = sched_step w st1"
    using run_sched_two[of w st] s1 st3 by (simp add: st1_def st2_def)
  show ?thesis using assms(2,4,7) r2 st3 sendable_later[OF assms(4)] by (simp add: st2_def s1)
qed

text \<open>The common run of a tick that reschedules one recurring task.\<close>

lemma tick_reschedule_run:
  assumes "loop st = Idle" "lists st (tasks_ref st) = xs @ r # ys"
    and "\<forall>x\<in>set (xs @ ys). not_mine w (objs st x)"
    and "sendable w (now_in (\<lambda>_. 0) (clock w (reads st))) (objs st r)"
    and "map_of (objs st r) ''repeat_type'' = Some rt" "\<not> py_eq rt (PStr ''once'')"
    and "send_ok w (attempts st)"
    and "calculate_next_repeat (tz_db w) (clock w (Suc (reads st))) (objs st r) = Inr nr"
  shows "run_sched 2 w st = st\<lparr>reads := Suc (Suc (reads st)), attempts := Suc (attempts st),
      sent := sent st @ [(r, dict_get (objs st r) ''channel_id'', dict_get (objs st r) ''content'')],
      objs := (objs st)(r := dict_setitem (objs st r) ''schedule_time_utc'' (case nr of None \<Rightarrow> PNone | Some d \<Rightarrow> PDt d)),
      loop := Idle\<rparr>"
proof -
  let ?now = "now_in (\<lambda>_. 0) (clock w (reads st))" and ?cid = "dict_get (objs st r) ''channel_id''"
    and ?c = "dict_get (objs st r) ''content''" and ?l = "tasks_ref st"
    and ?v = "case nr of None \<Rightarrow> PNone | Some d \<Rightarrow> PDt d"
  define st1 where "st1 = sched_step w st"
  have s1: "st1 = st\<lparr>reads := Suc (reads st), loop := Sending ?l (length xs) ?now [] r ?cid ?c\<rparr>"
    using sched_step_to_send[OF assms(1,2) _ assms(4)] assms(3) by (simp add: st1_def)
  define st2 where "st2 = st1\<lparr>attempts := Suc (attempts st1), sent := sent st1 @ [(r, ?cid, ?c)],
      reads := Suc (reads st1), objs := (objs st1)(r := dict_setitem (objs st1 r) ''schedule_time_utc'' ?v)\<rparr>"
  have rs: "resume_send w r [] ?cid ?c st1 = (Inr [], st2)"
    using resume_repeat_ok[of w st1 r rt nr "[]" ?cid ?c] assms(5-8) by (simp add: s1 st2_def)
  have "r \<notin> set ys" using assms(3,4) sendable_not_not_mine by fastforce
  then have ys: "\<forall>x\<in>set ys. not_mine w (objs st2 x)" using assms(3) by (auto simp: st2_def s1)
  have st3: "sched_step w st1 = st2\<lparr>loop := Idle\<rparr>"
    using sched_step_after_send[of st1 ?l xs ?now "[]" r ?cid ?c ys w "[]" st2] s1 assms(2) rs ys
    by (simp add: finish_tick_def)
  have r2: "run_sched 2 w st = sched_step w st1"
    using run_sched_two[of w st] s1 st3 by (simp add: st1_def st2_def)
  show ?thesis using r2 st3 by (simp add: st2_def s1)
qed

text \<open>C22: a tick that only reschedules a recurring task changes its schedule in memory but does not write the task file.\<close>

theorem tick_reschedule_not_persisted:
  assumes "loop st = Idle" "lists st (tasks_ref st) = xs @ r # ys"
    and "\<forall>x\<in>set (xs @ ys). not_mine w (objs st x)"
    and "sendable w (now_in (\<lambda>_. 0) (clock w (reads st))) (objs st r)"
    and "map_of (objs st r) ''repeat_type'' = Some rt" "\<not> py_eq rt (PStr ''once'')"
    and "send_ok w (attempts st)"
    and "calculate_next_repeat (tz_db w) (clock w (Suc (reads st))) (objs st r) = Inr nr"
    and "st' = run_sched 2 w st"
  shows "loop st' = Idle \<and> disk st' = disk st \<and> lists st' = lists st
    \<and> objs st' r = dict_setitem (objs st r) ''schedule_time_utc'' (case nr of None \<Rightarrow> PNone | Some d \<Rightarrow> PDt d)"
  using tick_reschedule_run[OF assms(1-8)] assms(9) by simp

text \<open>C23: after firing, a recurring task gets a UTC whole-minute schedule strictly after the instant of the tick, given a clock that does not run backwards.\<close>

theorem tick_reschedule_future:
  assumes "loop st = Idle" "lists st (tasks_ref st) = xs @ r # ys"
    and "\<forall>x\<in>set (xs @ ys). not_mine w (objs st x)"
    and "sendable w (now_in (\<lambda>_. 0) (clock w (reads st))) (objs st r)"
    and "map_of (objs st r) ''repeat_type'' = Some rt" "\<not> py_eq rt (PStr ''once'')"
    and "send_ok w (attempts st)"
    and "calculate_next_repeat (tz_db w) (clock w (Suc (reads st))) (objs st r) = Inr (Some d)"
    and "clock w (reads st) \<le> clock w (Suc (reads st))"
    and "st' = run_sched 2 w st"
  shows "dict_get (objs st' r) ''schedule_time_utc'' = PDt d
    \<and> clock w (reads st) < utc_us d
    \<and> utcoff d = 0 \<and> second (wall d) = 0 \<and> microsecond (wall d) = 0"
  using tick_reschedule_run[OF assms(1-8)] assms(9,10) calculate_next_repeat_future[OF assms(8)]
  by (simp add: dict_setitem_def dict_get_def)

text \<open>C24: a task without a user_id key, reached by the scan, ends the background task with KeyError, and from then on the loop never runs again.\<close>

theorem tick_crash_missing_owner:
  assumes "loop st = Idle" "lists st (tasks_ref st) = xs @ r # ys"
    and "\<forall>x\<in>set xs. not_mine w (objs st x)"
    and "map_of (objs st r) ''user_id'' = None"
  shows "loop (sched_step w st) = Dead KeyError
    \<and> (\<forall>n. run_sched n w (sched_step w st) = sched_step w st)"
proof -
  let ?st1 = "st\<lparr>reads := Suc (reads st)\<rparr>" and ?now = "now_in (\<lambda>_. 0) (clock w (reads st))"
  have "sched_step w st = scan_refs w ?now (tasks_ref st) (length xs) (r # ys) [] ?st1"
    using assms(1-3) scan_skip[of xs w ?st1] by (simp add: sched_step_def Let_def)
  also have "\<dots> = ?st1\<lparr>loop := Dead KeyError\<rparr>"
    using assms(4) by (simp add: visit_def dict_getitem_def)
  finally have d: "sched_step w st = ?st1\<lparr>loop := Dead KeyError\<rparr>" .
  have "run_sched n w (?st1\<lparr>loop := Dead KeyError\<rparr>) = ?st1\<lparr>loop := Dead KeyError\<rparr>" for n
    by (cases n) (simp_all add: sched_step_def)
  then show ?thesis using d by simp
qed

subsection \<open>Sends per tick\<close>

lemma after_send_counts: "after_send w r p st = (x, st') \<Longrightarrow> sent st' = sent st \<and> attempts st' = attempts st"
  by (auto simp: after_send_def Let_def except_handler_def split: sum.splits if_splits)

lemma visit_counts: "visit w now r p st = (x, st') \<Longrightarrow> sent st' = sent st \<and> attempts st' = attempts st"
proof -
  assume v: "visit w now r p st = (x, st')"
  have "sent (snd (after_send w r p st)) = sent st \<and> attempts (snd (after_send w r p st)) = attempts st"
    by (cases "after_send w r p st") (simp add: after_send_counts)
  then have "sent (snd (visit w now r p st)) = sent st \<and> attempts (snd (visit w now r p st)) = attempts st"
    by (auto simp: visit_def fire_def Let_def split: sum.splits)
  then show ?thesis using v by simp
qed

lemma finish_tick_counts: "sent (finish_tick p st) = sent st \<and> attempts (finish_tick p st) = attempts st"
  by (auto simp: finish_tick_def Let_def split: sum.splits)

lemma scan_refs_counts:
  "sent (scan_refs w now l i rs p st) = sent st \<and> attempts (scan_refs w now l i rs p st) = attempts st"
proof (induction rs arbitrary: i p st)
  case Nil
  then show ?case by (simp add: finish_tick_counts)
next
  case (Cons r rs)
  obtain x st' where v: "visit w now r p st = (x, st')" by fastforce
  then show ?case using Cons.IH visit_counts[OF v] by (cases x) auto
qed

lemma resume_send_counts:
  "resume_send w r p cid c st = (x, st') \<Longrightarrow>
   attempts st' = Suc (attempts st) \<and> length (sent st') \<le> Suc (length (sent st))"
  by (auto simp: resume_send_def Let_def except_handler_def dest!: after_send_counts split: if_splits sum.splits)

lemma sched_step_Sending_counts:
  assumes "loop st = Sending l j now p r cid c"
  shows "attempts (sched_step w st) = Suc (attempts st) \<and> length (sent (sched_step w st)) \<le> Suc (length (sent st))"
proof -
  obtain x st2 where rs: "resume_send w r p cid c st = (x, st2)" by fastforce
  note c = resume_send_counts[OF rs]
  show ?thesis using assms rs c scan_refs_counts by (cases x) (simp_all add: sched_step_def)
qed

lemma run_sched_counts_from_sending:
  "loop st = Sending l j now p r cid c \<Longrightarrow> j < length (lists st l) \<Longrightarrow>
   attempts (run_sched k w st) + j \<le> attempts st + length (lists st l)
   \<and> length (sent (run_sched k w st)) + j \<le> length (sent st) + length (lists st l)"
proof (induction k arbitrary: st l j now p r cid c)
  case 0
  then show ?case by simp
next
  case (Suc k)
  note c = sched_step_Sending_counts[OF Suc.prems(1), of w]
  show ?case
  proof (cases "loop (sched_step w st)")
    case (Sending l' j' now' p' r' cid' c')
    note s = sched_step_Sending_sending[OF Suc.prems(1) this]
    have "attempts (run_sched k w (sched_step w st)) + j' \<le> attempts (sched_step w st) + length (lists st l)
        \<and> length (sent (run_sched k w (sched_step w st))) + j' \<le> length (sent (sched_step w st)) + length (lists st l)"
      using Suc.IH[OF Sending] s by simp
    then show ?thesis using Sending s c by auto
  qed (use c Suc.prems(2) in simp_all)
qed

lemma resume_send_sent:
  "resume_send w r p cid c st = (x, st') \<Longrightarrow>
   sent st' = sent st @ (if send_ok w (attempts st) then [(r, cid, c)] else [])"
  by (auto simp: resume_send_def Let_def except_handler_def dest!: after_send_counts split: if_splits sum.splits)

lemma sched_step_sent_mono: "set (sent st) \<subseteq> set (sent (sched_step w st))"
proof (cases "loop st")
  case Idle
  then show ?thesis using scan_refs_counts by (simp add: sched_step_def Let_def)
next
  case (Sending l j now p r cid c)
  obtain x st2 where rs: "resume_send w r p cid c st = (x, st2)" by fastforce
  have "set (sent st) \<subseteq> set (sent st2)" using resume_send_sent[OF rs] by auto
  then show ?thesis using Sending rs scan_refs_counts by (cases x) (simp_all add: sched_step_def)
qed (simp add: sched_step_def)

lemma run_sched_sent_mono: "set (sent st) \<subseteq> set (sent (run_sched k w st))"
proof (induction k arbitrary: st)
  case (Suc k)
  have "set (sent st) \<subseteq> set (sent (sched_step w st))" by (rule sched_step_sent_mono)
  then show ?case using Suc.IH[of "sched_step w st"] by (auto simp: Let_def split: loop_state.splits)
qed simp

text \<open>C35: one tick left to run without interruption attempts at most one send per task of self.tasks, and so delivers at most that many messages, whatever the number of segments it is given: no task is sent twice in a tick.\<close>

theorem tick_sends_bounded:
  assumes "loop st = Idle"
  shows "attempts (run_sched n w st) \<le> attempts st + length (lists st (tasks_ref st))
    \<and> length (sent (run_sched n w st)) \<le> length (sent st) + length (lists st (tasks_ref st))"
proof (cases n)
  case 0
  then show ?thesis by simp
next
  case (Suc k)
  have i: "attempts (sched_step w st) = attempts st" "sent (sched_step w st) = sent st"
    using assms scan_refs_counts by (simp_all add: sched_step_def Let_def)
  show ?thesis
  proof (cases "loop (sched_step w st)")
    case (Sending l j now p r cid c)
    note s = sched_step_Idle_sending[OF assms this]
    have "attempts (run_sched k w (sched_step w st)) + j \<le> attempts (sched_step w st) + length (lists st l)
        \<and> length (sent (run_sched k w (sched_step w st))) + j \<le> length (sent (sched_step w st)) + length (lists st l)"
    proof -
      have "j < length (lists (sched_step w st) l)" using s by (elim conjE) simp
      from run_sched_counts_from_sending[OF Sending this, of k w] show ?thesis using s by simp
    qed
    then show ?thesis using Suc Sending s i by auto
  qed (use Suc i in simp_all)
qed

subsection \<open>A task whose next run cannot be computed\<close>

text \<open>When \<^verbatim>\<open>_calculate_next_repeat\<close> raises for a task at every clock reading
  (an unknown zone, say), the \<^verbatim>\<open>except\<close> handler leaves it as it was: no segment
  of the loop changes its object.\<close>

lemma after_send_keeps:
  assumes "r' \<noteq> r \<or> (\<forall>u. \<exists>e. calculate_next_repeat (tz_db w) u (objs st r) = Inl e)"
  shows "objs (snd (after_send w r' p st)) r = objs st r"
proof (cases "r' = r")
  case True
  then obtain e where "calculate_next_repeat (tz_db w) (clock w (reads st)) (objs st r) = Inl e" using assms by blast
  then show ?thesis using True by (auto simp: after_send_def Let_def except_handler_def split: sum.splits)
next
  case False
  then show ?thesis using after_send_snd[where w=w and r=r' and p=p and st=st] by (simp add: frame_def)
qed

lemma visit_keeps:
  assumes "visit w now r' p st = (x, st')" "r' \<noteq> r \<or> (\<forall>u. \<exists>e. calculate_next_repeat (tz_db w) u (objs st r) = Inl e)"
  shows "objs st' r = objs st r"
proof -
  have "objs (snd (visit w now r' p st)) r = objs st r"
    using after_send_keeps[OF assms(2), of p] by (auto simp: visit_def fire_def Let_def split: sum.splits)
  then show ?thesis using assms(1) by simp
qed

lemma scan_refs_keeps:
  "\<forall>u. \<exists>e. calculate_next_repeat (tz_db w) u (objs st r) = Inl e \<Longrightarrow>
   objs (scan_refs w now l i rs p st) r = objs st r"
proof (induction rs arbitrary: i p st)
  case Nil
  then show ?case by (auto simp: finish_tick_def Let_def split: sum.splits)
next
  case (Cons r' rs)
  obtain x st' where v: "visit w now r' p st = (x, st')" by fastforce
  have k: "objs st' r = objs st r" using visit_keeps[OF v] Cons.prems by blast
  then show ?case using Cons.IH[of st'] Cons.prems v by (cases x) auto
qed

lemma sched_step_keeps:
  assumes "\<forall>u. \<exists>e. calculate_next_repeat (tz_db w) u (objs st r) = Inl e"
  shows "objs (sched_step w st) r = objs st r"
proof (cases "loop st")
  case Idle
  then show ?thesis using scan_refs_keeps assms by (simp add: sched_step_def Let_def)
next
  case (Sending l j now p r' cid c)
  obtain x st2 where rs: "resume_send w r' p cid c st = (x, st2)" by fastforce
  have "objs st2 r = objs st r"
  proof (cases "send_ok w (attempts st)")
    case True
    then have "st2 = snd (after_send w r' p (st\<lparr>attempts := Suc (attempts st), sent := sent st @ [(r', cid, c)]\<rparr>))"
      using rs by (simp add: resume_send_def)
    then show ?thesis using after_send_keeps[of r' r w "st\<lparr>attempts := Suc (attempts st), sent := sent st @ [(r', cid, c)]\<rparr>" p] assms
      by simp
  next
    case False
    then show ?thesis using rs by (auto simp: resume_send_def dest: except_handler_frame)
  qed
  then show ?thesis using Sending rs scan_refs_keeps[of w st2 r] assms by (cases x) (simp_all add: sched_step_def)
qed (simp add: sched_step_def)

lemma run_sched_keeps:
  "\<forall>u. \<exists>e. calculate_next_repeat (tz_db w) u (objs st r) = Inl e \<Longrightarrow> objs (run_sched k w st) r = objs st r"
proof (induction k arbitrary: st)
  case (Suc k)
  have "objs (sched_step w st) r = objs st r" using sched_step_keeps Suc.prems by blast
  then show ?case using Suc.IH[of "sched_step w st"] Suc.prems by (auto simp: Let_def split: loop_state.splits)
qed simp

subsection \<open>What a tick retires\<close>

text \<open>The loop writes no key of a task but its schedule, and \<^verbatim>\<open>pending_delete\<close>
  grows only by the id of a one-shot task just sent.\<close>

lemma same_keys_refl [simp]: "same_keys h h"
  by (simp add: same_keys_def)

lemma same_keys_trans: "same_keys h h' \<Longrightarrow> same_keys h' h'' \<Longrightarrow> same_keys h h''"
  by (simp add: same_keys_def)

lemma same_keysD: "same_keys h h' \<Longrightarrow> k \<noteq> ''schedule_time_utc'' \<Longrightarrow> map_of (h' x) k = map_of (h x) k"
  by (simp add: same_keys_def)

lemma after_send_same_keys: "after_send w r p st = (x, st') \<Longrightarrow> same_keys (objs st) (objs st')"
  by (auto simp: after_send_def Let_def except_handler_def dict_setitem_def same_keys_def update_conv'
      split: sum.splits if_splits)

lemma visit_same_keys: "visit w now r p st = (x, st') \<Longrightarrow> same_keys (objs st) (objs st')"
proof -
  assume v: "visit w now r p st = (x, st')"
  have "same_keys (objs st) (objs (snd (after_send w r p st)))"
    by (cases "after_send w r p st") (simp add: after_send_same_keys)
  then have "same_keys (objs st) (objs (snd (visit w now r p st)))"
    by (auto simp: visit_def fire_def Let_def split: sum.splits)
  then show ?thesis using v by simp
qed

lemma resume_send_same_keys: "resume_send w r p cid c st = (x, st') \<Longrightarrow> same_keys (objs st) (objs st')"
  by (auto simp: resume_send_def Let_def except_handler_def dest!: after_send_same_keys split: if_splits sum.splits)

lemma resume_send_refs: "resume_send w r p cid c st = (x, st') \<Longrightarrow> lists st' = lists st \<and> tasks_ref st' = tasks_ref st"
  by (auto simp: resume_send_def Let_def dest!: except_handler_frame after_send_frame split: if_splits)
    (auto simp: frame_def)

lemma of_handled_Next: "of_handled y = (Next p', st') \<longleftrightarrow> y = (Inr p', st')"
  by (cases y) (auto simp: of_handled_def split: sum.splits)

lemma of_handled_not_Await: "of_handled y \<noteq> (Await cid c, st')"
  by (cases y) (auto simp: of_handled_def split: sum.splits)

lemma visit_await: "visit w now r p st = (Await cid c, st') \<Longrightarrow> st' = st"
  by (auto simp: visit_def fire_def Let_def of_handled_not_Await split: sum.splits if_splits)

lemma visit_next_cases:
  "visit w now r p st = (Next p', st') \<Longrightarrow> (p' = p \<and> st' = st) \<or> after_send w r p st = (Inr p', st')"
  by (auto simp: visit_def fire_def Let_def of_handled_Next except_handler_def split: sum.splits if_splits)

lemma resume_send_cases:
  "resume_send w r p cid c st = (Inr p', st') \<Longrightarrow>
     (p' = p \<and> objs st' = objs st \<and> sent st' = sent st)
   \<or> after_send w r p (st\<lparr>attempts := Suc (attempts st), sent := sent st @ [(r, cid, c)]\<rparr>) = (Inr p', st')"
  by (auto simp: resume_send_def Let_def except_handler_def split: sum.splits if_splits)

lemma after_send_pending:
  "after_send w r p st = (Inr p', st') \<Longrightarrow>
     p' = p \<or> (\<exists>tid. p' = p @ [tid] \<and> map_of (objs st r) ''repeat_type'' = Some (PStr ''once'')
                   \<and> map_of (objs st r) ''id'' = Some tid)"
  by (auto simp: after_send_def Let_def except_handler_def dict_getitem_def of_option_def
      split: sum.splits if_splits option.splits)

lemma after_send_once:
  "map_of (objs st r) ''repeat_type'' = Some (PStr ''once'') \<Longrightarrow> map_of (objs st r) ''id'' = Some tid \<Longrightarrow>
   after_send w r p st = (Inr (p @ [tid]), st)"
  by (simp add: after_send_def Let_def dict_getitem_def)

lemma scan_refs_end:
  assumes "scan_refs w now l i rs p st = sr" "Q p (objs st) (sent st)" "same_keys hs (objs st)" "set rs \<subseteq> L"
    and V: "\<forall>now r p st1 p' st2. r \<in> L \<longrightarrow> Q p (objs st1) (sent st1) \<longrightarrow> same_keys hs (objs st1) \<longrightarrow>
              visit w now r p st1 = (Next p', st2) \<longrightarrow> Q p' (objs st2) (sent st2)"
  shows "(\<exists>j p' r cid c. loop sr = Sending l j now p' r cid c \<and> r \<in> L \<and> Q p' (objs sr) (sent sr)
            \<and> same_keys hs (objs sr) \<and> lists sr = lists st \<and> tasks_ref sr = tasks_ref st)
    \<or> (\<exists>p' st'. sr = finish_tick p' st' \<and> Q p' (objs st') (sent st')
            \<and> same_keys hs (objs st') \<and> lists st' = lists st \<and> tasks_ref st' = tasks_ref st)
    \<or> (\<exists>e. loop sr = Dead e)"
  using assms(1-4)
proof (induction rs arbitrary: i p st)
  case Nil
  then show ?case by auto
next
  case (Cons r rs)
  obtain x st' where v: "visit w now r p st = (x, st')" by fastforce
  have r: "r \<in> L" using Cons.prems(4) by simp
  have k: "same_keys hs (objs st')" using same_keys_trans[OF Cons.prems(3) visit_same_keys[OF v]] .
  have f: "lists st' = lists st" "tasks_ref st' = tasks_ref st" using visit_frame[OF v] by (simp_all add: frame_def)
  show ?case
  proof (cases x)
    case (Next p1)
    have q: "Q p1 (objs st') (sent st')" using V r Cons.prems(2,3) v Next by blast
    have "scan_refs w now l (Suc i) rs p1 st' = sr" using Cons.prems(1) v Next by simp
    from Cons.IH[OF this q k] Cons.prems(4) show ?thesis using f by auto
  next
    case (Await cid c)
    then have "st' = st" using v visit_await by blast
    then show ?thesis using v Await Cons.prems r by auto
  next
    case (Crash e)
    then show ?thesis using v Cons.prems(1) by auto
  qed
qed

lemma run_sched_end_from_sending:
  assumes "loop st = Sending l j now p r cid c" "j < length (lists st l)" "length (lists st l) - j \<le> k"
    "r \<in> L" "set (lists st l) \<subseteq> L" "Q p (objs st) (sent st)" "same_keys hs (objs st)"
    and V: "\<forall>now r p st1 p' st2. r \<in> L \<longrightarrow> Q p (objs st1) (sent st1) \<longrightarrow> same_keys hs (objs st1) \<longrightarrow>
              visit w now r p st1 = (Next p', st2) \<longrightarrow> Q p' (objs st2) (sent st2)"
    and R: "\<forall>r p cid c st1 p' st2. r \<in> L \<longrightarrow> Q p (objs st1) (sent st1) \<longrightarrow> same_keys hs (objs st1) \<longrightarrow>
              resume_send w r p cid c st1 = (Inr p', st2) \<longrightarrow> Q p' (objs st2) (sent st2)"
  shows "(\<exists>p' st'. run_sched k w st = finish_tick p' st' \<and> Q p' (objs st') (sent st')
            \<and> same_keys hs (objs st') \<and> lists st' = lists st \<and> tasks_ref st' = tasks_ref st)
    \<or> (\<exists>e. loop (run_sched k w st) = Dead e)"
  using assms(1-7)
proof (induction k arbitrary: st j p r cid c)
  case 0
  then show ?case by simp
next
  case (Suc k)
  obtain x st2 where rs: "resume_send w r p cid c st = (x, st2)" by fastforce
  have f2: "lists st2 = lists st" "tasks_ref st2 = tasks_ref st" using resume_send_refs[OF rs] by simp_all
  show ?case
  proof (cases x)
    case (Inl e)
    then show ?thesis using Suc.prems(1) rs by (simp add: sched_step_def)
  next
    case (Inr p2)
    have q2: "Q p2 (objs st2) (sent st2)" using R Suc.prems(4,6,7) rs Inr by blast
    have k2: "same_keys hs (objs st2)" using same_keys_trans[OF Suc.prems(7) resume_send_same_keys[OF rs]] .
    have e: "sched_step w st = scan_refs w now l (Suc j) (drop (Suc j) (lists st2 l)) p2 st2"
      using Suc.prems(1) rs Inr by (simp add: sched_step_def)
    have sub: "set (drop (Suc j) (lists st2 l)) \<subseteq> L" using Suc.prems(5) f2 set_drop_subset by fastforce
    from scan_refs_end[where Q=Q and hs=hs and L=L, OF e[symmetric] q2 k2 sub V]
    consider (S) j' p' r' cid' c' where "loop (sched_step w st) = Sending l j' now p' r' cid' c'" "r' \<in> L"
        "Q p' (objs (sched_step w st)) (sent (sched_step w st))" "same_keys hs (objs (sched_step w st))"
        "lists (sched_step w st) = lists st" "tasks_ref (sched_step w st) = tasks_ref st"
      | (F) p' st' where "sched_step w st = finish_tick p' st'" "Q p' (objs st') (sent st')"
        "same_keys hs (objs st')" "lists st' = lists st" "tasks_ref st' = tasks_ref st"
      | (D) e where "loop (sched_step w st) = Dead e"
      using f2 by fastforce
    then show ?thesis
    proof cases
      case S
      note s = sched_step_Sending_sending[OF Suc.prems(1) S(1)]
      have "(\<exists>p'' st'. run_sched k w (sched_step w st) = finish_tick p'' st' \<and> Q p'' (objs st') (sent st')
            \<and> same_keys hs (objs st') \<and> lists st' = lists (sched_step w st) \<and> tasks_ref st' = tasks_ref (sched_step w st))
          \<or> (\<exists>e. loop (run_sched k w (sched_step w st)) = Dead e)"
        using Suc.IH[OF S(1) _ _ S(2) _ S(3,4)] s Suc.prems(3,5) by auto
      then show ?thesis using S by simp
    next
      case F
      then show ?thesis using finish_tick_loop[of p' st'] by auto
    next
      case D
      then show ?thesis by simp
    qed
  qed
qed

lemma tick_end:
  assumes "loop st = Idle" "Q [] (objs st) (sent st)"
    and V: "\<forall>now r p st1 p' st2. r \<in> set (lists st (tasks_ref st)) \<longrightarrow> Q p (objs st1) (sent st1) \<longrightarrow>
              same_keys (objs st) (objs st1) \<longrightarrow> visit w now r p st1 = (Next p', st2) \<longrightarrow> Q p' (objs st2) (sent st2)"
    and R: "\<forall>r p cid c st1 p' st2. r \<in> set (lists st (tasks_ref st)) \<longrightarrow> Q p (objs st1) (sent st1) \<longrightarrow>
              same_keys (objs st) (objs st1) \<longrightarrow> resume_send w r p cid c st1 = (Inr p', st2) \<longrightarrow> Q p' (objs st2) (sent st2)"
  shows "(\<exists>p st'. run_sched (Suc (length (lists st (tasks_ref st)))) w st = finish_tick p st' \<and> Q p (objs st') (sent st')
            \<and> same_keys (objs st) (objs st') \<and> lists st' = lists st \<and> tasks_ref st' = tasks_ref st)
    \<or> (\<exists>e. loop (run_sched (Suc (length (lists st (tasks_ref st)))) w st) = Dead e)"
proof -
  let ?L = "set (lists st (tasks_ref st))" and ?n = "length (lists st (tasks_ref st))"
  let ?st1 = "st\<lparr>reads := Suc (reads st)\<rparr>" and ?now = "now_in (\<lambda>_. 0) (clock w (reads st))"
  have e: "sched_step w st = scan_refs w ?now (tasks_ref st) 0 (lists st (tasks_ref st)) [] ?st1"
    using assms(1) by (simp add: sched_step_def Let_def)
  have q: "Q [] (objs ?st1) (sent ?st1)" "same_keys (objs st) (objs ?st1)" using assms(2) by simp_all
  from scan_refs_end[where Q=Q and hs="objs st" and L="?L", OF e[symmetric] q subset_refl V]
  consider (S) j p' r' cid' c' where "loop (sched_step w st) = Sending (tasks_ref st) j ?now p' r' cid' c'" "r' \<in> ?L"
      "Q p' (objs (sched_step w st)) (sent (sched_step w st))" "same_keys (objs st) (objs (sched_step w st))"
      "lists (sched_step w st) = lists st" "tasks_ref (sched_step w st) = tasks_ref st"
    | (F) p' st' where "sched_step w st = finish_tick p' st'" "Q p' (objs st') (sent st')"
      "same_keys (objs st) (objs st')" "lists st' = lists st" "tasks_ref st' = tasks_ref st"
    | (D) e where "loop (sched_step w st) = Dead e"
    by fastforce
  then show ?thesis
  proof cases
    case S
    note s = sched_step_Idle_sending[OF assms(1) S(1)]
    have "(\<exists>p'' st'. run_sched ?n w (sched_step w st) = finish_tick p'' st' \<and> Q p'' (objs st') (sent st')
          \<and> same_keys (objs st) (objs st') \<and> lists st' = lists (sched_step w st) \<and> tasks_ref st' = tasks_ref (sched_step w st))
        \<or> (\<exists>e. loop (run_sched ?n w (sched_step w st)) = Dead e)"
      using run_sched_end_from_sending[where Q=Q and hs="objs st" and L="?L" and k="?n" and w=w,
          OF S(1) _ _ S(2) _ S(3,4) V R] s by auto
    then show ?thesis using S by simp
  next
    case F
    then show ?thesis using finish_tick_loop[of p' st'] by auto
  next
    case D
    then show ?thesis by simp
  qed
qed

lemma finish_tick_tasks:
  assumes "\<forall>x\<in>set (lists st (tasks_ref st)). map_of (objs st x) ''id'' \<noteq> None"
  shows "lists (finish_tick p st) (tasks_ref (finish_tick p st)) =
    (if p = [] then lists st (tasks_ref st)
     else filter (\<lambda>x. \<not> py_in (dict_get (objs st x) ''id'') p) (lists st (tasks_ref st)))"
  using filter_pending_ids[OF assms, of p] by (auto simp: finish_tick_def Let_def split: sum.splits)

lemma sched_step_sent_prefix: "\<exists>xs. sent (sched_step w st) = sent st @ xs"
proof (cases "loop st")
  case Idle
  then show ?thesis using scan_refs_counts by (simp add: sched_step_def Let_def)
next
  case (Sending l j now p r cid c)
  obtain x st2 where rs: "resume_send w r p cid c st = (x, st2)" by fastforce
  have "\<exists>xs. sent st2 = sent st @ xs" using resume_send_sent[OF rs] by blast
  then show ?thesis using Sending rs scan_refs_counts by (cases x) (simp_all add: sched_step_def)
qed (simp add: sched_step_def)

lemma run_sched_sent_prefix: "\<exists>xs. sent (run_sched k w st) = sent st @ xs"
proof (induction k arbitrary: st)
  case (Suc k)
  obtain xs where "sent (sched_step w st) = sent st @ xs" using sched_step_sent_prefix by blast
  then show ?case using Suc.IH[of "sched_step w st"] by (auto simp: Let_def split: loop_state.splits)
qed simp

lemma after_send_reads: "after_send w r p st = (x, st') \<Longrightarrow> reads st \<le> reads st'"
  by (auto simp: after_send_def Let_def except_handler_def split: sum.splits if_splits)

lemma visit_reads: "visit w now r p st = (x, st') \<Longrightarrow> reads st \<le> reads st'"
proof -
  assume v: "visit w now r p st = (x, st')"
  have "reads st \<le> reads (snd (after_send w r p st))"
    by (cases "after_send w r p st") (simp add: after_send_reads)
  then have "reads st \<le> reads (snd (visit w now r p st))"
    by (auto simp: visit_def fire_def Let_def split: sum.splits)
  then show ?thesis using v by simp
qed

lemma scan_refs_reads: "reads st \<le> reads (scan_refs w now l i rs p st)"
proof (induction rs arbitrary: i p st)
  case Nil
  then show ?case by (auto simp: finish_tick_def Let_def split: sum.splits)
next
  case (Cons r rs)
  obtain x st' where v: "visit w now r p st = (x, st')" by fastforce
  then show ?case using Cons.IH[where st=st'] visit_reads[OF v] by (cases x) (auto intro: order_trans)
qed

lemma resume_send_reads: "resume_send w r p cid c st = (x, st') \<Longrightarrow> reads st \<le> reads st'"
  by (auto simp: resume_send_def Let_def except_handler_def dest!: after_send_reads split: if_splits sum.splits)

lemma sched_step_reads: "reads st \<le> reads (sched_step w st)"
proof (cases "loop st")
  case Idle
  then show ?thesis using scan_refs_reads[of "st\<lparr>reads := Suc (reads st)\<rparr>"]
    by (simp add: sched_step_def Let_def) (meson Suc_leD)
next
  case (Sending l j now p r cid c)
  obtain x st2 where rs: "resume_send w r p cid c st = (x, st2)" by fastforce
  note le = resume_send_reads[OF rs]
  then show ?thesis using Sending rs scan_refs_reads[of st2] by (cases x) (auto simp: sched_step_def intro: order_trans)
qed (simp add: sched_step_def)

lemma run_sched_reads: "reads st \<le> reads (run_sched k w st)"
proof (induction k arbitrary: st)
  case (Suc k)
  then show ?case using sched_step_reads[of st w] Suc.IH[of "sched_step w st"]
    by (auto simp: Let_def split: loop_state.splits intro: order_trans)
qed simp

section \<open>Witnesses\<close>

lemma early_due: "sendable (sample_world ok) (now_in (\<lambda>_. 0) mon_10am) (sample_task rt (PDt early_dt))"
  by (simp add: sendable_def aware_le_def utc_us_def naive_us_def now_in_def naive_of_us_def us_unit_defs)

theorem tick_terminates_witness:
  "loop (run_sched (Suc (length (lists (bot_with (sample_task ''once'' (PDt early_dt))) 0))) (sample_world True)
            (bot_with (sample_task ''once'' (PDt early_dt)))) = Idle
   \<or> (\<exists>e. loop (run_sched (Suc (length (lists (bot_with (sample_task ''once'' (PDt early_dt))) 0))) (sample_world True)
            (bot_with (sample_task ''once'' (PDt early_dt)))) = Dead e)"
  using tick_terminates[of "bot_with (sample_task ''once'' (PDt early_dt))" "sample_world True"] by simp

theorem tick_once_task_witness:
  "loop (run_sched 2 (sample_world True) (bot_with (sample_task ''once'' (PDt early_dt)))) = Idle
   \<and> sent (run_sched 2 (sample_world True) (bot_with (sample_task ''once'' (PDt early_dt)))) = [(0, PInt 55, PStr ''hi'')]
   \<and> 0 \<notin> set (lists (run_sched 2 (sample_world True) (bot_with (sample_task ''once'' (PDt early_dt))))
                (tasks_ref (run_sched 2 (sample_world True) (bot_with (sample_task ''once'' (PDt early_dt))))))"
  using tick_once_task[of "bot_with (sample_task ''once'' (PDt early_dt))" "[]" 0 "[]" "sample_world True" "''a1''"
      "run_sched 2 (sample_world True) (bot_with (sample_task ''once'' (PDt early_dt)))"] early_due
  by (simp add: stored_task_ok_def stored_dt_ok_def wf_naive_def)


lemma sample_daily_next:
  "calculate_next_repeat wib_db mon_10am (sample_task ''harian'' v)
     = Inr (Some (as_utc (add_days (at_hm (now_in (\<lambda>_. 420) mon_10am) 9 30) 1)))"
  using replace_hm_le[of "now_in (\<lambda>_. 420) mon_10am" 9 30] mon_10am_clock
  by (simp add: calculate_next_repeat_def py_eval next_daily_def replace_hm_def fits_c_int_def hm_val_def Let_def)

theorem tick_failed_send_not_consumed_witness:
  "loop (run_sched 2 (sample_world False) (bot_with (sample_task ''once'' (PDt early_dt)))) = Idle
   \<and> sent (run_sched 2 (sample_world False) (bot_with (sample_task ''once'' (PDt early_dt)))) = []
   \<and> lists (run_sched 2 (sample_world False) (bot_with (sample_task ''once'' (PDt early_dt))))
       (tasks_ref (run_sched 2 (sample_world False) (bot_with (sample_task ''once'' (PDt early_dt))))) = [0]
   \<and> sendable (sample_world False) (now_in (\<lambda>_. 0) (mon_10am + 5000000))
       (objs (run_sched 2 (sample_world False) (bot_with (sample_task ''once'' (PDt early_dt)))) 0)"
proof -
  have t: "loop (run_sched 2 (sample_world False) (bot_with (sample_task ''once'' (PDt early_dt)))) = Idle
   \<and> sent (run_sched 2 (sample_world False) (bot_with (sample_task ''once'' (PDt early_dt)))) = []
   \<and> lists (run_sched 2 (sample_world False) (bot_with (sample_task ''once'' (PDt early_dt))))
       (tasks_ref (run_sched 2 (sample_world False) (bot_with (sample_task ''once'' (PDt early_dt))))) = [0]
   \<and> (\<forall>u \<ge> mon_10am. sendable (sample_world False) (now_in (\<lambda>_. 0) u)
       (objs (run_sched 2 (sample_world False) (bot_with (sample_task ''once'' (PDt early_dt)))) 0))"
    using tick_failed_send_not_consumed[of "bot_with (sample_task ''once'' (PDt early_dt))" "[]" 0 "[]"
      "sample_world False" "PStr ''a1''" "run_sched 2 (sample_world False) (bot_with (sample_task ''once'' (PDt early_dt)))"]
      early_due by auto
  have "mon_10am \<le> mon_10am + (5000000::int)" by simp
  then show ?thesis using t by blast
qed

theorem tick_reschedule_not_persisted_witness:
  "loop (run_sched 2 (sample_world True) (bot_with (sample_task ''harian'' (PDt early_dt)))) = Idle
   \<and> disk (run_sched 2 (sample_world True) (bot_with (sample_task ''harian'' (PDt early_dt)))) = NoFile
   \<and> objs (run_sched 2 (sample_world True) (bot_with (sample_task ''harian'' (PDt early_dt)))) 0
       = sample_task ''harian'' (PDt (as_utc (add_days (at_hm (now_in (\<lambda>_. 420) mon_10am) 9 30) 1)))"
  using tick_reschedule_not_persisted[of "bot_with (sample_task ''harian'' (PDt early_dt))" "[]" 0 "[]"
      "sample_world True" "PStr ''harian''" "Some (as_utc (add_days (at_hm (now_in (\<lambda>_. 420) mon_10am) 9 30) 1))"
      "run_sched 2 (sample_world True) (bot_with (sample_task ''harian'' (PDt early_dt)))"]
    early_due sample_daily_next
  by (simp add: dict_setitem_def)

theorem tick_reschedule_future_witness:
  "dict_get (objs (run_sched 2 (sample_world True) (bot_with (sample_task ''harian'' (PDt early_dt)))) 0)
      ''schedule_time_utc'' = PDt (as_utc (add_days (at_hm (now_in (\<lambda>_. 420) mon_10am) 9 30) 1))
   \<and> mon_10am < utc_us (as_utc (add_days (at_hm (now_in (\<lambda>_. 420) mon_10am) 9 30) 1))"
  using tick_reschedule_future[of "bot_with (sample_task ''harian'' (PDt early_dt))" "[]" 0 "[]"
      "sample_world True" "PStr ''harian''" "as_utc (add_days (at_hm (now_in (\<lambda>_. 420) mon_10am) 9 30) 1)"
      "run_sched 2 (sample_world True) (bot_with (sample_task ''harian'' (PDt early_dt)))"]
    early_due sample_daily_next
  by simp

theorem tick_crash_missing_owner_witness:
  "loop (sched_step (sample_world True) (bot_with [(''id'', PStr ''a1'')])) = Dead KeyError
   \<and> (\<forall>n. run_sched n (sample_world True) (sched_step (sample_world True) (bot_with [(''id'', PStr ''a1'')]))
          = sched_step (sample_world True) (bot_with [(''id'', PStr ''a1'')]))"
  using tick_crash_missing_owner[of "bot_with [(''id'', PStr ''a1'')]" "[]" 0 "[]" "sample_world True"]
  by simp

theorem tick_sends_bounded_witness:
  "attempts (run_sched 2 (sample_world True) (bot_with (sample_task ''once'' (PDt early_dt)))) \<le> 1
   \<and> length (sent (run_sched 2 (sample_world True) (bot_with (sample_task ''once'' (PDt early_dt))))) \<le> 1"
  using tick_sends_bounded[of "bot_with (sample_task ''once'' (PDt early_dt))" 2 "sample_world True"] by simp

end
