(* ===== verification/Commands.thy ===== *)
theory Commands
  imports Scheduler
begin

text \<open>
  The command layer, class \<^verbatim>\<open>SchedulerCog\<close> of \<^verbatim>\<open>src/chronoreply.py\<close> (lines
  255--464): \<^verbatim>\<open>on_message\<close> splits a message of the session's own user into a
  command and arguments and calls one handler. A handler runs without
  suspension until its final \<^verbatim>\<open>ctx.send\<close> (its mutations of \<^verbatim>\<open>self.bot.tasks\<close>
  come before it), so each call is one atomic step on the bot state of
  Theory \<open>Scheduler\<close>; the scheduler's segments and the handlers interleave in
  the step relation \<open>bot_step\<close>. An exception in a handler ends it without a
  reply (discord.py logs it); the state changes made before it remain.
\<close>

section \<open>Configuration\<close>

text \<open>The values \<^verbatim>\<open>from config import PREFIX, DEFAULT_TZ\<close> (the file
  \<^verbatim>\<open>config.py\<close> is not part of the sources), \<^verbatim>\<open>self.bot.default_tz\<close>
  (\<^verbatim>\<open>pytz.timezone(DEFAULT_TZ)\<close>), and the first eight characters of
  successive \<^verbatim>\<open>uuid.uuid4()\<close> values.\<close>

record cmd_env =
  cmd_prefix :: string
  default_tz_name :: string
  default_tz :: tzinfo
  uuid8 :: "nat \<Rightarrow> string"

section \<open>Shared steps\<close>

text \<open>\<^verbatim>\<open>s.startswith(p)\<close>.\<close>

definition py_startswith :: "string \<Rightarrow> string \<Rightarrow> bool" where
  "py_startswith s p \<longleftrightarrow> take (length p) s = p"

text \<open>\<^verbatim>\<open>await ctx.send(...)\<close>.\<close>

definition reply_with :: "reply \<Rightarrow> bot \<Rightarrow> bot" where
  "reply_with m st = st\<lparr>replies := replies st @ [m]\<rparr>"

text \<open>\<^verbatim>\<open>datetime.now(tz)\<close>: the next clock reading.\<close>

definition read_clock :: "world \<Rightarrow> bot \<Rightarrow> instant \<times> bot" where
  "read_clock w st = (clock w (reads st), st\<lparr>reads := Suc (reads st)\<rparr>)"

text \<open>\<^verbatim>\<open>self.bot.tasks.append(task); self.bot.save_tasks()\<close>: the new dictionary
  is a fresh object appended to the current list object in place; a failing
  \<^verbatim>\<open>save_tasks\<close> raises after the append, so the task stays in memory. The
  flag says whether the handler goes on.\<close>

definition append_task :: "pydict \<Rightarrow> bot \<Rightarrow> bot \<times> bool" where
  "append_task task st =
     (let r = fresh st;
          st1 = st\<lparr>objs := (objs st)(r := task),
                   lists := (lists st)(tasks_ref st := lists st (tasks_ref st) @ [r]),
                   fresh := Suc r\<rparr>
      in case save_tasks (cur_tasks st1) of
           Inl _ \<Rightarrow> (st1, False)
         | Inr f \<Rightarrow> (st1\<lparr>disk := f\<rparr>, True))"

text \<open>A handler's outcome: its final state, whether or not it raised.\<close>

definition settle :: "bot \<Rightarrow> bot py_result \<Rightarrow> bot" where
  "settle st r = (case r of Inl _ \<Rightarrow> st | Inr st' \<Rightarrow> st')"

section \<open>Handlers\<close>

text \<open>\<^verbatim>\<open>_kirim_once(ctx, *args)\<close>, lines 310--343. \<^verbatim>\<open>parse_time_input\<close>
  reads the clock once and the check \<^verbatim>\<open>dt_utc <= datetime.now(pytz.utc)\<close> a
  second time.\<close>

definition kirim_once :: "world \<Rightarrow> cmd_env \<Rightarrow> string list \<Rightarrow> bot \<Rightarrow> bot" where
  "kirim_once w env args st =
     (if length args < 3 then reply_with RUsageKirim st
      else
        (let waktu = args ! 0; channel_id_str = args ! 1; pesan = py_join '' '' (drop 2 args)
         in case py_int channel_id_str of
              None \<Rightarrow> reply_with RBadChannel st
            | Some channel_id \<Rightarrow>
                (let (u1, st1) = read_clock w st
                 in case parse_time_input (default_tz env) u1 waktu of
                      None \<Rightarrow> reply_with RBadTime st1
                    | Some dt_utc \<Rightarrow>
                        (let (u2, st2) = read_clock w st1
                         in if aware_le dt_utc (now_in (\<lambda>_. 0) u2) then reply_with RPast st2
                            else
                              (let tid = PStr (uuid8 env (fresh st2));
                                   task = [(''id'', tid), (''user_id'', me w), (''channel_id'', PInt channel_id),
                                           (''content'', PStr pesan), (''repeat_type'', PStr ''once''),
                                           (''schedule_time_utc'', PDt dt_utc),
                                           (''timezone'', PStr (default_tz_name env))]
                               in case append_task task st2 of
                                    (st3, True) \<Rightarrow> reply_with (RCreated tid) st3
                                  | (st3, False) \<Rightarrow> st3)))))"

text \<open>\<^verbatim>\<open>_kirim_repeat(ctx, tipe, *args)\<close>, lines 357--415.\<close>

definition kirim_repeat :: "world \<Rightarrow> cmd_env \<Rightarrow> string \<Rightarrow> string list \<Rightarrow> bot \<Rightarrow> bot" where
  "kirim_repeat w env tipe args st =
     (let parsed =
        (if tipe = ''harian'' then
           (if length args < 3 then Inl RUsageHarian
            else Inr (args ! 0, args ! 1, py_join '' '' (drop 2 args), PNone))
         else if tipe = ''mingguan'' then
           (if length args < 4 then Inl RUsageMingguan
            else Inr (args ! 1, args ! 2, py_join '' '' (drop 3 args), PStr (py_lower (args ! 0))))
         else Inl RBadRepeatType)
      in case parsed of
           Inl m \<Rightarrow> reply_with m st
         | Inr (time_str, channel_id_str, pesan, day) \<Rightarrow>
             (case (py_int channel_id_str, map_int2 CHR '':'' time_str) of
                (Some channel_id, Some _) \<Rightarrow>
                  (let temp = [(''repeat_type'', PStr tipe), (''repeat_value'', PStr time_str),
                               (''repeat_day'', day), (''timezone'', PStr (default_tz_name env))];
                       (u, st1) = read_clock w st
                   in case calculate_next_repeat (tz_db w) u temp of
                        Inl _ \<Rightarrow> st1
                      | Inr None \<Rightarrow> reply_with RFirstRunFailed st1
                      | Inr (Some first_run) \<Rightarrow>
                          (let tid = PStr (uuid8 env (fresh st1));
                               task = [(''id'', tid), (''user_id'', me w), (''channel_id'', PInt channel_id),
                                       (''content'', PStr pesan), (''repeat_type'', PStr tipe),
                                       (''repeat_value'', PStr time_str), (''repeat_day'', day),
                                       (''schedule_time_utc'', PDt first_run),
                                       (''timezone'', PStr (default_tz_name env))]
                           in case append_task task st1 of
                                (st2, True) \<Rightarrow> reply_with (RRepeatCreated tid) st2
                              | (st2, False) \<Rightarrow> st2))
              | _ \<Rightarrow> reply_with RBadTimeOrChannel st))"

text \<open>\<^verbatim>\<open>_route_repeat(ctx, args)\<close>, lines 348--352.\<close>

definition route_repeat :: "world \<Rightarrow> cmd_env \<Rightarrow> string list \<Rightarrow> bot \<Rightarrow> bot" where
  "route_repeat w env args st =
     (if length args < 1 then reply_with RUsageUlang st
      else kirim_repeat w env (py_lower (args ! 0)) (drop 1 args) st)"

text \<open>\<^verbatim>\<open>_list_tasks(ctx)\<close>, lines 420--442: the session's tasks, each of which
  must have a date-time schedule (\<^verbatim>\<open>astimezone\<close>), a channel, a string content
  (sliced), an id and a repeat type; the text of the reply is not modelled.\<close>

definition list_entry_ok :: "pydict \<Rightarrow> unit py_result" where
  "list_entry_ok t =
     pbind (dict_getitem t ''schedule_time_utc'') (\<lambda>s.
       case s of
         PDt _ \<Rightarrow>
           pbind (dict_getitem t ''channel_id'') (\<lambda>_.
           pbind (dict_getitem t ''content'') (\<lambda>c.
             case c of
               PStr _ \<Rightarrow> pbind (dict_getitem t ''id'') (\<lambda>_.
                          pbind (dict_getitem t ''repeat_type'') (\<lambda>_. Inr ()))
             | _ \<Rightarrow> Inl TypeError))
       | _ \<Rightarrow> Inl AttributeError)"

fun own_tasks :: "world \<Rightarrow> pydict list \<Rightarrow> pydict list py_result" where
  "own_tasks w [] = Inr []"
| "own_tasks w (t # ts) =
     pbind (dict_getitem t ''user_id'') (\<lambda>uid.
       pbind (own_tasks w ts) (\<lambda>rs. Inr (if py_eq uid (me w) then t # rs else rs)))"

fun check_entries :: "pydict list \<Rightarrow> unit py_result" where
  "check_entries [] = Inr ()"
| "check_entries (t # ts) = pbind (list_entry_ok t) (\<lambda>_. check_entries ts)"

definition list_tasks :: "world \<Rightarrow> bot \<Rightarrow> bot" where
  "list_tasks w st =
     (case own_tasks w (cur_tasks st) of
        Inl _ \<Rightarrow> st
      | Inr [] \<Rightarrow> reply_with RNoTasks st
      | Inr ts \<Rightarrow> (case check_entries ts of Inl _ \<Rightarrow> st | Inr _ \<Rightarrow> reply_with (RTaskList ts) st))"

text \<open>\<^verbatim>\<open>[t for t in self.bot.tasks if t["id"] != task_id]\<close>.\<close>

fun keep_other_ids :: "(nat \<Rightarrow> pydict) \<Rightarrow> string \<Rightarrow> nat list \<Rightarrow> nat list py_result" where
  "keep_other_ids h tid [] = Inr []"
| "keep_other_ids h tid (r # rs) =
     pbind (dict_getitem (h r) ''id'') (\<lambda>v.
       pbind (keep_other_ids h tid rs) (\<lambda>keep. Inr (if \<not> py_eq v (PStr tid) then r # keep else keep)))"

text \<open>\<^verbatim>\<open>_delete_task(ctx, task_id=None)\<close>, lines 447--458, called as
  \<^verbatim>\<open>self._delete_task(ctx, *args)\<close>: more than one argument is a
  \<^verbatim>\<open>TypeError\<close> of the call. \<^verbatim>\<open>self.bot.tasks\<close> is rebound to a new list
  object whether or not a task was removed.\<close>

definition delete_task :: "string list \<Rightarrow> bot \<Rightarrow> bot" where
  "delete_task args st =
     (if length args > 1 then st
      else if args = [] then reply_with RUsageHapus st
      else
        (let task_id = args ! 0;
             before = length (lists st (tasks_ref st))
         in case keep_other_ids (objs st) task_id (lists st (tasks_ref st)) of
              Inl _ \<Rightarrow> st
            | Inr keep \<Rightarrow>
                (let l = fresh st;
                     st1 = st\<lparr>lists := (lists st)(l := keep), tasks_ref := l, fresh := Suc l\<rparr>
                 in if length keep < before then
                      settle st1 (pbind (save_tasks (cur_tasks st1)) (\<lambda>f.
                        Inr (reply_with (RDeleted task_id) (st1\<lparr>disk := f\<rparr>))))
                    else reply_with RNotFound st1)))"

section \<open>\<^verbatim>\<open>on_message\<close>\<close>

text \<open>A message: its author and its text.\<close>

record message =
  author :: pyval
  text_of :: string

text \<open>\<^verbatim>\<open>on_message(self, message)\<close>, lines 273--305.\<close>

definition on_message :: "world \<Rightarrow> cmd_env \<Rightarrow> message \<Rightarrow> bot \<Rightarrow> bot" where
  "on_message w env msg st =
     (if \<not> py_eq (author msg) (me w) then st
      else if \<not> py_startswith (text_of msg) (cmd_prefix env) then st
      else
        (case py_split (drop (length (cmd_prefix env)) (text_of msg)) of
           [] \<Rightarrow> st
         | p # args \<Rightarrow>
             (let command = py_lower p in
              if command = ''kirim'' then kirim_once w env args st
              else if command = ''ulang'' then route_repeat w env args st
              else if command = ''daftar'' then list_tasks w st
              else if command = ''hapus'' then delete_task args st
              else if command = ''tz'' then reply_with RTimezone st
              else st)))"

section \<open>The bot as a whole\<close>

text \<open>Between two segments of the scheduler loop any number of messages can be
  handled; the loop is suspended at every point where a handler runs.\<close>

inductive bot_step :: "world \<Rightarrow> cmd_env \<Rightarrow> bot \<Rightarrow> bot \<Rightarrow> bool" where
  loop_segment: "bot_step w env st (sched_step w st)"
| handle_message: "bot_step w env st (on_message w env msg st)"

text \<open>\<^verbatim>\<open>ChronoReply.__init__\<close>: \<^verbatim>\<open>self.tasks = self._load_tasks()\<close>, each task a
  fresh object of list 0, the loop at its first \<^verbatim>\<open>sleep\<close>.\<close>

definition init_bot :: "task_file \<Rightarrow> bot" where
  "init_bot f =
     (let ts = load_tasks f; n = length ts
      in \<lparr>objs = (\<lambda>i. if i < n then ts ! i else []), lists = (\<lambda>_. [])(0 := [0..<n]),
          tasks_ref = 0, fresh = Suc n, disk = f, sent = [], attempts = 0, reads = 0,
          loop = Idle, replies = []\<rparr>)"

inductive reachable :: "world \<Rightarrow> cmd_env \<Rightarrow> task_file \<Rightarrow> bot \<Rightarrow> bool" where
  start: "reachable w env f (init_bot f)"
| step: "reachable w env f st \<Longrightarrow> bot_step w env st st' \<Longrightarrow> reachable w env f st'"

section \<open>Sample states\<close>

text \<open>The prefix \<^verbatim>\<open>!\<close>, Jakarta as the default zone, a fixed uuid prefix, and
  a bot suspended in the send of task 0 with a second due task 1 after it.\<close>

abbreviation sample_env :: "string \<Rightarrow> cmd_env" where
  "sample_env u \<equiv> \<lparr>cmd_prefix = ''!'', default_tz_name = ''Asia/Jakarta'', default_tz = (\<lambda>_. 420),
     uuid8 = (\<lambda>_. u)\<rparr>"

abbreviation race_bot :: bot where
  "race_bot \<equiv> \<lparr>objs = (\<lambda>_. [])(0 := sample_task ''once'' (PDt early_dt),
                  1 := (''id'', PStr ''a2'') # tl (sample_task ''once'' (PDt early_dt))),
     lists = (\<lambda>_. [])(0 := [0, 1]), tasks_ref = 0, fresh = 2, disk = NoFile, sent = [], attempts = 0,
     reads = 1, loop = Sending 0 0 (now_in (\<lambda>_. 0) mon_10am) [] 0 (PInt 55) (PStr ''hi''), replies = []\<rparr>"

section \<open>Facts\<close>

lemma split_on_nonempty: "split_on p s \<noteq> []"
  by (induction s) (auto simp: Let_def)

lemma split_on_pieces: "w \<in> set (split_on p s) \<Longrightarrow> c \<in> set w \<Longrightarrow> \<not> p c"
proof (induction s arbitrary: w)
  case Nil
  then show ?case by simp
next
  case (Cons x s)
  let ?r = "split_on p s"
  have r: "?r = hd ?r # tl ?r" using split_on_nonempty[of p s] by simp
  show ?case
  proof (cases "p x")
    case True
    then show ?thesis using Cons by (auto simp: Let_def)
  next
    case False
    then have "w = x # hd ?r \<or> w \<in> set (tl ?r)" using Cons.prems(1) by (auto simp: Let_def)
    then show ?thesis
    proof
      assume "w = x # hd ?r"
      then show ?thesis using Cons.prems(2) Cons.IH[of "hd ?r"] False r by (metis list.set_intros(1) set_ConsD)
    next
      assume "w \<in> set (tl ?r)"
      then show ?thesis using Cons.prems(2) Cons.IH r by (metis list.set_intros(2))
    qed
  qed
qed

lemma split_on_none: "\<forall>c\<in>set s. \<not> p c \<Longrightarrow> split_on p s = [s]"
  by (induction s) (auto simp: Let_def)

lemma py_split_token: "w \<in> set (py_split s) \<Longrightarrow> py_split w = [w]"
  using split_on_pieces[of w is_ws s] split_on_none[of w is_ws] by (auto simp: py_split_def)

lemma parse_no_colon:
  "py_split w = [w] \<Longrightarrow> CHR '':'' \<notin> set w \<Longrightarrow> parse_time_input tz u w = None"
  by (simp add: parse_time_input_def)

text \<open>C27: a /kirim command whose time argument has no colon creates no task and writes nothing: the weekday and DD-MM grammars of parse_time_input, which need two tokens, are unreachable from /kirim, whose time argument is one token.\<close>

theorem kirim_needs_colon:
  assumes "py_split (drop (length (cmd_prefix env)) (text_of msg)) = p # args"
    and "py_lower p = ''kirim''" and "2 < length args" and "CHR '':'' \<notin> set (args ! 0)"
  shows "lists (on_message w env msg st) = lists st \<and> objs (on_message w env msg st) = objs st
    \<and> disk (on_message w env msg st) = disk st"
proof -
  have "args ! 0 \<in> set (py_split (drop (length (cmd_prefix env)) (text_of msg)))"
  proof -
    have "args \<noteq> []" using assms(3) by auto
    then have "args ! 0 \<in> set args" by simp
    then show ?thesis using assms(1) by simp
  qed
  then have "py_split (args ! 0) = [args ! 0]" by (rule py_split_token)
  then have "parse_time_input tz u (args ! 0) = None" for tz u using assms(4) by (rule parse_no_colon)
  then have "lists (kirim_once w env args st) = lists st \<and> objs (kirim_once w env args st) = objs st
      \<and> disk (kirim_once w env args st) = disk st"
    using assms(3) by (auto simp: kirim_once_def Let_def read_clock_def reply_with_def split: option.splits)
  then show ?thesis using assms(1,2) by (auto simp: on_message_def Let_def reply_with_def)
qed


lemma append_task_fields:
  "lists (fst (append_task t st)) = (lists st)(tasks_ref st := lists st (tasks_ref st) @ [fresh st])
   \<and> objs (fst (append_task t st)) = (objs st)(fresh st := t)
   \<and> tasks_ref (fst (append_task t st)) = tasks_ref st \<and> fresh (fst (append_task t st)) = Suc (fresh st)"
  by (simp add: append_task_def Let_def split: sum.splits)

lemma kirim_once_shape:
  "(lists (kirim_once w env args st) = lists st \<and> tasks_ref (kirim_once w env args st) = tasks_ref st)
   \<or> (\<exists>cid dt. py_int (args ! 1) = Some cid
        \<and> parse_time_input (default_tz env) (clock w (reads st)) (args ! 0) = Some dt
        \<and> \<not> aware_le dt (now_in (\<lambda>_. 0) (clock w (Suc (reads st))))
        \<and> map_of (objs (kirim_once w env args st) (fresh st)) ''schedule_time_utc'' = Some (PDt dt)
        \<and> lists (kirim_once w env args st) = (lists st)(tasks_ref st := lists st (tasks_ref st) @ [fresh st])
        \<and> tasks_ref (kirim_once w env args st) = tasks_ref st)"
proof -
  have "(lists (kirim_once w env args st) = lists st \<and> tasks_ref (kirim_once w env args st) = tasks_ref st)
   \<or> (\<exists>cid dt. py_int (args ! 1) = Some cid
        \<and> parse_time_input (default_tz env) (clock w (reads st)) (args ! 0) = Some dt
        \<and> \<not> aware_le dt (now_in (\<lambda>_. 0) (clock w (Suc (reads st))))
        \<and> kirim_once w env args st = (let st3 = fst (append_task
             [(''id'', PStr (uuid8 env (fresh st))), (''user_id'', me w), (''channel_id'', PInt cid),
              (''content'', PStr (py_join '' '' (drop 2 args))), (''repeat_type'', PStr ''once''),
              (''schedule_time_utc'', PDt dt), (''timezone'', PStr (default_tz_name env))]
             (st\<lparr>reads := Suc (Suc (reads st))\<rparr>))
           in if snd (append_task
             [(''id'', PStr (uuid8 env (fresh st))), (''user_id'', me w), (''channel_id'', PInt cid),
              (''content'', PStr (py_join '' '' (drop 2 args))), (''repeat_type'', PStr ''once''),
              (''schedule_time_utc'', PDt dt), (''timezone'', PStr (default_tz_name env))]
             (st\<lparr>reads := Suc (Suc (reads st))\<rparr>))
           then reply_with (RCreated (PStr (uuid8 env (fresh st)))) st3 else st3))"
    by (auto simp: kirim_once_def Let_def read_clock_def reply_with_def split: option.splits prod.splits bool.splits)
  then show ?thesis by (auto simp: Let_def append_task_fields reply_with_def split: if_splits)
qed

text \<open>C26: a task that /kirim adds has a UTC whole-minute schedule strictly after the clock reading of its creation check, and is appended to self.tasks as a fresh object.\<close>

theorem kirim_once_future:
  assumes "length (lists (kirim_once w env args st) (tasks_ref (kirim_once w env args st)))
           \<noteq> length (lists st (tasks_ref st))"
  shows "\<exists>dt. lists (kirim_once w env args st) (tasks_ref st) = lists st (tasks_ref st) @ [fresh st]
     \<and> map_of (objs (kirim_once w env args st) (fresh st)) ''schedule_time_utc'' = Some (PDt dt)
     \<and> clock w (Suc (reads st)) < utc_us dt
     \<and> utcoff dt = 0 \<and> second (wall dt) = 0 \<and> microsecond (wall dt) = 0"
proof -
  obtain cid dt where k: "parse_time_input (default_tz env) (clock w (reads st)) (args ! 0) = Some dt"
      "\<not> aware_le dt (now_in (\<lambda>_. 0) (clock w (Suc (reads st))))"
      "map_of (objs (kirim_once w env args st) (fresh st)) ''schedule_time_utc'' = Some (PDt dt)"
      "lists (kirim_once w env args st) = (lists st)(tasks_ref st := lists st (tasks_ref st) @ [fresh st])"
      "tasks_ref (kirim_once w env args st) = tasks_ref st"
    using kirim_once_shape[of w env args st] assms by auto
  have "utcoff dt = 0 \<and> second (wall dt) = 0 \<and> microsecond (wall dt) = 0"
    using parse_result_form[OF k(1)] as_utc_whole_minute by blast
  moreover have "clock w (Suc (reads st)) < utc_us dt" using k(2) by (simp add: aware_le_def)
  ultimately show ?thesis using k(3,4) by auto
qed


lemma sched_step_sent_ok:
  assumes "loop st = Sending l i now p r cid c" "send_ok w (attempts st)"
  shows "sent (sched_step w st) = sent st @ [(r, cid, c)]"
proof -
  obtain x st2 where rs: "resume_send w r p cid c st = (x, st2)" by fastforce
  have "sent st2 = sent st @ [(r, cid, c)]"
  proof -
    have "sent (snd (after_send w r p (st\<lparr>attempts := Suc (attempts st), sent := sent st @ [(r, cid, c)]\<rparr>)))
        = sent st @ [(r, cid, c)]"
      by (cases "after_send w r p (st\<lparr>attempts := Suc (attempts st), sent := sent st @ [(r, cid, c)]\<rparr>)")
         (simp add: after_send_counts)
    then show ?thesis using rs assms(2) by (simp add: resume_send_def Let_def)
  qed
  then show ?thesis using assms(1) rs scan_refs_counts by (cases x) (simp_all add: sched_step_def)
qed

lemma keep_other_ids_filter:
  "\<forall>x\<in>set rs. map_of (h x) ''id'' \<noteq> None \<Longrightarrow>
     keep_other_ids h tid rs = Inr (filter (\<lambda>x. \<not> py_eq (dict_get (h x) ''id'') (PStr tid)) rs)"
  by (induction rs) (auto simp: dict_getitem_def dict_get_def)

lemma delete_task_rebinds:
  assumes "\<forall>x\<in>set (lists st (tasks_ref st)). map_of (objs st x) ''id'' \<noteq> None"
  shows "lists (delete_task [tid] st) (tasks_ref (delete_task [tid] st))
           = filter (\<lambda>x. \<not> py_eq (dict_get (objs st x) ''id'') (PStr tid)) (lists st (tasks_ref st))
     \<and> (\<forall>l'. l' \<noteq> fresh st \<longrightarrow> lists (delete_task [tid] st) l' = lists st l')
     \<and> objs (delete_task [tid] st) = objs st \<and> loop (delete_task [tid] st) = loop st
     \<and> attempts (delete_task [tid] st) = attempts st \<and> sent (delete_task [tid] st) = sent st"
  using keep_other_ids_filter[OF assms, of tid]
  by (auto simp: delete_task_def Let_def settle_def reply_with_def pbind_def split: sum.splits)


lemma sched_step_next_send:
  assumes "loop st = Sending l (length xs) now p r0 cid c" "lists st l = xs @ r0 # r # ys"
    and "resume_send w r0 p cid c st = (Inr p', st2)"
    and "sendable w now (objs st2 r)"
  shows "sched_step w st = st2\<lparr>loop := Sending l (Suc (length xs)) now p' r
     (dict_get (objs st2 r) ''channel_id'') (dict_get (objs st2 r) ''content'')\<rparr>"
proof -
  have "lists st2 = lists st" using resume_send_lists[OF assms(3)] .
  then show ?thesis using assms visit_sendable[OF assms(4), of p'] by (simp add: sched_step_def)
qed

lemma on_message_hapus:
  assumes "py_eq (author msg) (me w)" "py_startswith (text_of msg) (cmd_prefix env)"
    and "py_split (drop (length (cmd_prefix env)) (text_of msg)) = [''hapus'', tid]"
  shows "on_message w env msg st = delete_task [tid] st"
  using assms by (simp add: on_message_def py_eval)

text \<open>C25: while the scheduler is suspended in channel.send, /hapus can remove a later due task from self.tasks, and the scan, which goes on over the old list object, still sends that task.\<close>

theorem deleted_task_still_sent:
  assumes "loop st = Sending l (length xs) now p r0 cid c" "lists st l = xs @ r0 # r # ys"
    and "tasks_ref st = l" "l < fresh st"
    and "\<forall>x\<in>set (lists st l). map_of (objs st x) ''id'' \<noteq> None"
    and "map_of (objs st r) ''id'' = Some (PStr tid)"
    and "map_of (objs st r0) ''repeat_type'' = Some (PStr ''once'')" "map_of (objs st r0) ''id'' = Some tid0"
    and "send_ok w (attempts st)" "send_ok w (Suc (attempts st))"
    and "sendable w now (objs st r)"
    and "py_eq (author msg) (me w)" "py_startswith (text_of msg) (cmd_prefix env)"
    and "py_split (drop (length (cmd_prefix env)) (text_of msg)) = [''hapus'', tid]"
    and "st1 = on_message w env msg st" "st3 = sched_step w (sched_step w st1)"
  shows "r \<notin> set (lists st1 (tasks_ref st1))
    \<and> (r, dict_get (objs st r) ''channel_id'', dict_get (objs st r) ''content'') \<in> set (sent st3)"
proof -
  have d: "st1 = delete_task [tid] st" using on_message_hapus[OF assms(12-14)] assms(15) by simp
  note del = delete_task_rebinds[of st tid]
  have ids: "\<forall>x\<in>set (lists st (tasks_ref st)). map_of (objs st x) ''id'' \<noteq> None" using assms(3,5) by simp
  have s1: "lists st1 (tasks_ref st1) = filter (\<lambda>x. \<not> py_eq (dict_get (objs st x) ''id'') (PStr tid)) (lists st l)"
    "lists st1 l = lists st l" "objs st1 = objs st" "loop st1 = loop st" "attempts st1 = attempts st"
    "sent st1 = sent st"
    using del[OF ids] d assms(3,4) by auto
  have "r \<notin> set (lists st1 (tasks_ref st1))" using s1(1) assms(6) by (simp add: dict_get_def)
  define st1' where "st1' = st1\<lparr>attempts := Suc (attempts st1), sent := sent st1 @ [(r0, cid, c)]\<rparr>"
  have rs: "resume_send w r0 p cid c st1 = (Inr (p @ [tid0]), st1')"
    using resume_once_ok[of w st1 r0 tid0 p cid c] assms(7-9) s1 by (simp add: st1'_def)
  have st2: "sched_step w st1 = st1'\<lparr>loop := Sending l (Suc (length xs)) now (p @ [tid0]) r
      (dict_get (objs st r) ''channel_id'') (dict_get (objs st r) ''content'')\<rparr>"
    using sched_step_next_send[of st1 l xs now p r0 cid c r ys w "p @ [tid0]" st1'] assms(1,2,11) s1 rs
    by (simp add: st1'_def)
  have "sent st3 = sent (sched_step w st1) @ [(r, dict_get (objs st r) ''channel_id'', dict_get (objs st r) ''content'')]"
    using sched_step_sent_ok[of "sched_step w st1" l "Suc (length xs)" now "p @ [tid0]" r] st2 assms(10,16) s1
    by (simp add: st1'_def)
  then show ?thesis using \<open>r \<notin> set (lists st1 (tasks_ref st1))\<close> by simp
qed


lemma kirim_once_append:
  assumes "2 < length args" "py_int (args ! 1) = Some cid"
    and "parse_time_input (default_tz env) (clock w (reads st)) (args ! 0) = Some dt"
    and "\<not> aware_le dt (now_in (\<lambda>_. 0) (clock w (Suc (reads st))))"
  shows "lists (kirim_once w env args st) = (lists st)(tasks_ref st := lists st (tasks_ref st) @ [fresh st])
    \<and> tasks_ref (kirim_once w env args st) = tasks_ref st \<and> fresh (kirim_once w env args st) = Suc (fresh st)
    \<and> objs (kirim_once w env args st) = (objs st)(fresh st :=
        [(''id'', PStr (uuid8 env (fresh st))), (''user_id'', me w), (''channel_id'', PInt cid),
         (''content'', PStr (py_join '' '' (drop 2 args))), (''repeat_type'', PStr ''once''),
         (''schedule_time_utc'', PDt dt), (''timezone'', PStr (default_tz_name env))])"
proof -
  define task where "task = [(''id'', PStr (uuid8 env (fresh st))), (''user_id'', me w), (''channel_id'', PInt cid),
         (''content'', PStr (py_join '' '' (drop 2 args))), (''repeat_type'', PStr ''once''),
         (''schedule_time_utc'', PDt dt), (''timezone'', PStr (default_tz_name env))]"
  define st2 where "st2 = st\<lparr>reads := Suc (Suc (reads st))\<rparr>"
  obtain st3 ok where a: "append_task task st2 = (st3, ok)" by fastforce
  have f: "lists st3 = (lists st)(tasks_ref st := lists st (tasks_ref st) @ [fresh st])"
    "objs st3 = (objs st)(fresh st := task)" "tasks_ref st3 = tasks_ref st" "fresh st3 = Suc (fresh st)"
    using append_task_fields[of task st2] a by (simp_all add: st2_def)
  have k: "kirim_once w env args st = (if ok then reply_with (RCreated (PStr (uuid8 env (fresh st)))) st3 else st3)"
    using assms a by (cases ok) (simp_all add: kirim_once_def Let_def read_clock_def task_def st2_def)
  show ?thesis using k f by (simp add: reply_with_def task_def)
qed

text \<open>C28: /kirim does not check that the new id is unused: when the eight-character uuid prefix equals the id of a task in the store, the store holds two tasks with that id.\<close>

theorem kirim_duplicate_id:
  assumes "2 < length args" "py_int (args ! 1) = Some cid"
    and "parse_time_input (default_tz env) (clock w (reads st)) (args ! 0) = Some dt"
    and "\<not> aware_le dt (now_in (\<lambda>_. 0) (clock w (Suc (reads st))))"
    and "x \<in> set (lists st (tasks_ref st))" "x < fresh st"
    and "map_of (objs st x) ''id'' = Some (PStr (uuid8 env (fresh st)))"
    and "st' = kirim_once w env args st"
  shows "x \<in> set (lists st' (tasks_ref st')) \<and> fresh st \<in> set (lists st' (tasks_ref st')) \<and> x \<noteq> fresh st
    \<and> map_of (objs st' x) ''id'' = map_of (objs st' (fresh st)) ''id''"
  using kirim_once_append[OF assms(1-4)] assms(5-8) by auto


lemma own_tasks_filter:
  "\<forall>t\<in>set ts. map_of t ''user_id'' \<noteq> None \<Longrightarrow>
     own_tasks w ts = Inr (filter (\<lambda>t. py_eq (dict_get t ''user_id'') (me w)) ts)"
  by (induction ts) (auto simp: dict_getitem_def dict_get_def)

lemma check_entries_fails:
  "\<exists>t\<in>set ts. \<exists>e. list_entry_ok t = Inl e \<Longrightarrow> \<exists>e. check_entries ts = Inl e"
  by (induction ts) (auto simp: pbind_def split: sum.splits)

text \<open>C29: when one of the session's tasks has the schedule None, /daftar raises (None has no astimezone) and sends no reply.\<close>

theorem daftar_fails_on_unscheduled:
  assumes "\<forall>t\<in>set (cur_tasks st). map_of t ''user_id'' \<noteq> None"
    and "t0 \<in> set (cur_tasks st)" "map_of t0 ''user_id'' = Some uid" "py_eq uid (me w)"
    and "map_of t0 ''schedule_time_utc'' = Some PNone"
  shows "list_tasks w st = st"
proof -
  let ?ts = "filter (\<lambda>t. py_eq (dict_get t ''user_id'') (me w)) (cur_tasks st)"
  have o: "own_tasks w (cur_tasks st) = Inr ?ts" using own_tasks_filter[OF assms(1)] .
  have t0: "t0 \<in> set ?ts" using assms(2-4) by (simp add: dict_get_def)
  then have ne: "?ts \<noteq> []" by (metis empty_iff list.set(1))
  have "list_entry_ok t0 = Inl AttributeError" using assms(5) by (simp add: list_entry_ok_def dict_getitem_def)
  then obtain e where "check_entries ?ts = Inl e" using check_entries_fails[of ?ts] t0 by blast
  moreover obtain y ys where "?ts = y # ys" using ne by (cases ?ts) auto
  ultimately show ?thesis using o by (simp add: list_tasks_def del: check_entries.simps)
qed

section \<open>Witnesses\<close>

theorem kirim_needs_colon_witness:
  "lists (on_message (sample_world True) (sample_env ''b2'') \<lparr>author = PInt 7, text_of = ''!kirim senin 09:00 55 hi''\<rparr>
      (bot_with (sample_task ''once'' (PDt early_dt)))) = lists (bot_with (sample_task ''once'' (PDt early_dt)))
   \<and> objs (on_message (sample_world True) (sample_env ''b2'') \<lparr>author = PInt 7, text_of = ''!kirim senin 09:00 55 hi''\<rparr>
      (bot_with (sample_task ''once'' (PDt early_dt)))) = objs (bot_with (sample_task ''once'' (PDt early_dt)))
   \<and> disk (on_message (sample_world True) (sample_env ''b2'') \<lparr>author = PInt 7, text_of = ''!kirim senin 09:00 55 hi''\<rparr>
      (bot_with (sample_task ''once'' (PDt early_dt)))) = NoFile"
  using kirim_needs_colon[of "sample_env ''b2''" "\<lparr>author = PInt 7, text_of = ''!kirim senin 09:00 55 hi''\<rparr>"
      "''kirim''" "[''senin'', ''09:00'', ''55'', ''hi'']" "sample_world True" "bot_with (sample_task ''once'' (PDt early_dt))"]
  by (simp add: py_eval)

lemma parse_1145:
  "parse_time_input (\<lambda>_. 420) mon_10am ''11:45'' = Some (as_utc (at_hm (now_in (\<lambda>_. 420) mon_10am) 11 45))"
  using replace_hm_le[of "now_in (\<lambda>_. 420) mon_10am" 11 45] mon_10am_clock
  by (simp add: parse_time_input_def parse_hhmm_def py_eval replace_hm_def fits_c_int_def Let_def)

lemma at_1145_future: "\<not> aware_le (as_utc (at_hm (now_in (\<lambda>_. 420) mon_10am) 11 45)) (now_in (\<lambda>_. 0) mon_10am)"
  unfolding aware_le_def utc_us_as_utc utc_us_now_in
  by (simp add: utc_us_def naive_us_def now_in_def naive_of_us_def us_unit_defs)

lemma kirim_1145_added:
  "length (lists (kirim_once (sample_world True) (sample_env u) [''11:45'', ''55'', ''hi''] (bot_with t))
      (tasks_ref (kirim_once (sample_world True) (sample_env u) [''11:45'', ''55'', ''hi''] (bot_with t))))
   \<noteq> length (lists (bot_with t) (tasks_ref (bot_with t)))"
  using kirim_once_append[of "[''11:45'', ''55'', ''hi'']" 55 "sample_env u" "sample_world True" "bot_with t"
      "as_utc (at_hm (now_in (\<lambda>_. 420) mon_10am) 11 45)"] parse_1145 at_1145_future
  by (simp add: py_eval)

theorem kirim_once_future_witness:
  "\<exists>dt. lists (kirim_once (sample_world True) (sample_env ''b2'') [''11:45'', ''55'', ''hi''] (bot_with [])) 0 = [0, 1]
     \<and> map_of (objs (kirim_once (sample_world True) (sample_env ''b2'') [''11:45'', ''55'', ''hi''] (bot_with [])) 1)
         ''schedule_time_utc'' = Some (PDt dt)
     \<and> mon_10am < utc_us dt \<and> utcoff dt = 0 \<and> second (wall dt) = 0 \<and> microsecond (wall dt) = 0"
  using kirim_once_future[OF kirim_1145_added[of "''b2''" "[]"]] by simp

theorem kirim_duplicate_id_witness:
  "0 \<in> set (lists (kirim_once (sample_world True) (sample_env ''a1'') [''11:45'', ''55'', ''hi'']
                    (bot_with (sample_task ''once'' (PDt early_dt))))
             (tasks_ref (kirim_once (sample_world True) (sample_env ''a1'') [''11:45'', ''55'', ''hi'']
                    (bot_with (sample_task ''once'' (PDt early_dt))))))
   \<and> 1 \<in> set (lists (kirim_once (sample_world True) (sample_env ''a1'') [''11:45'', ''55'', ''hi'']
                    (bot_with (sample_task ''once'' (PDt early_dt))))
             (tasks_ref (kirim_once (sample_world True) (sample_env ''a1'') [''11:45'', ''55'', ''hi'']
                    (bot_with (sample_task ''once'' (PDt early_dt))))))
   \<and> map_of (objs (kirim_once (sample_world True) (sample_env ''a1'') [''11:45'', ''55'', ''hi'']
                    (bot_with (sample_task ''once'' (PDt early_dt)))) 0) ''id''
     = map_of (objs (kirim_once (sample_world True) (sample_env ''a1'') [''11:45'', ''55'', ''hi'']
                    (bot_with (sample_task ''once'' (PDt early_dt)))) 1) ''id''"
  using kirim_duplicate_id[of "[''11:45'', ''55'', ''hi'']" 55 "sample_env ''a1''" "sample_world True"
      "bot_with (sample_task ''once'' (PDt early_dt))" "as_utc (at_hm (now_in (\<lambda>_. 420) mon_10am) 11 45)" 0
      "kirim_once (sample_world True) (sample_env ''a1'') [''11:45'', ''55'', ''hi''] (bot_with (sample_task ''once'' (PDt early_dt)))"]
    parse_1145 at_1145_future
  by (simp add: py_eval)

lemma race_due: "sendable (sample_world True) (now_in (\<lambda>_. 0) mon_10am) (objs race_bot 1)"
  by (simp add: sendable_def aware_le_def utc_us_def naive_us_def now_in_def naive_of_us_def us_unit_defs)

theorem deleted_task_still_sent_witness:
  "1 \<notin> set (lists (on_message (sample_world True) (sample_env ''b2'') \<lparr>author = PInt 7, text_of = ''!hapus a2''\<rparr> race_bot)
            (tasks_ref (on_message (sample_world True) (sample_env ''b2'') \<lparr>author = PInt 7, text_of = ''!hapus a2''\<rparr> race_bot)))
   \<and> (1, PInt 55, PStr ''hi'') \<in> set (sent (sched_step (sample_world True) (sched_step (sample_world True)
        (on_message (sample_world True) (sample_env ''b2'') \<lparr>author = PInt 7, text_of = ''!hapus a2''\<rparr> race_bot))))"
  using deleted_task_still_sent[of race_bot 0 "[]" "now_in (\<lambda>_. 0) mon_10am" "[]" 0 "PInt 55" "PStr ''hi''" 1 "[]"
      "''a2''" "PStr ''a1''" "sample_world True" "\<lparr>author = PInt 7, text_of = ''!hapus a2''\<rparr>" "sample_env ''b2''"
      "on_message (sample_world True) (sample_env ''b2'') \<lparr>author = PInt 7, text_of = ''!hapus a2''\<rparr> race_bot"
      "sched_step (sample_world True) (sched_step (sample_world True)
        (on_message (sample_world True) (sample_env ''b2'') \<lparr>author = PInt 7, text_of = ''!hapus a2''\<rparr> race_bot))"]
    race_due
  by (simp add: py_eval py_startswith_def dict_get_def)

theorem daftar_fails_on_unscheduled_witness:
  "list_tasks (sample_world True) (bot_with (sample_task ''mingguan'' PNone))
     = bot_with (sample_task ''mingguan'' PNone)"
  using daftar_fails_on_unscheduled[of "bot_with (sample_task ''mingguan'' PNone)"
      "sample_task ''mingguan'' PNone" "PInt 7" "sample_world True"]
  by (simp add: cur_tasks_def)

end
