(* ===== verification/Invariant.thy ===== *)
theory Invariant
  imports Commands
begin

text \<open>
  The invariant of the whole bot. Every task object that a Python list of the heap
  holds has an \<^verbatim>\<open>id\<close>, a \<^verbatim>\<open>user_id\<close> and a schedule that is \<^verbatim>\<open>None\<close> or a
  UTC date-time in whole minutes; \<^verbatim>\<open>self.tasks\<close> and the list the loop iterates
  are objects already allocated; a suspended send refers to the element at its
  index; the loop is not dead; and the task file is one whose records have an
  \<^verbatim>\<open>id\<close> and a \<^verbatim>\<open>user_id\<close>. Every handler of Theory \<open>Commands\<close> and every
  segment of the loop of Theory \<open>Scheduler\<close> preserves it, so it holds in every
  reachable state when it holds for the file the bot starts from.
\<close>

section \<open>The invariant\<close>

definition sched_ok :: "pyval \<Rightarrow> bool" where
  "sched_ok s \<longleftrightarrow> (case s of
      PNone \<Rightarrow> True
    | PDt a \<Rightarrow> utcoff a = 0 \<and> second (wall a) = 0 \<and> microsecond (wall a) = 0
    | _ \<Rightarrow> False)"

definition task_ok :: "pydict \<Rightarrow> bool" where
  "task_ok t \<longleftrightarrow> map_of t ''id'' \<noteq> None \<and> map_of t ''user_id'' \<noteq> None
     \<and> (case map_of t ''schedule_time_utc'' of Some s \<Rightarrow> sched_ok s | None \<Rightarrow> False)"

text \<open>A task file the bot may start from: every record has an id and an owner.\<close>

definition file_ok :: "task_file \<Rightarrow> bool" where
  "file_ok f \<longleftrightarrow> (case f of
      Stored (PList items) \<Rightarrow>
        (\<forall>v\<in>set items. case v of
           PDict d \<Rightarrow> map_of d ''id'' \<noteq> None \<and> map_of d ''user_id'' \<noteq> None
         | _ \<Rightarrow> True)
    | _ \<Rightarrow> True)"

text \<open>Every reference a list holds is allocated (below \<open>fresh\<close>) and its object well-formed.\<close>

definition objs_ok :: "bot \<Rightarrow> bool" where
  "objs_ok st \<longleftrightarrow> (\<forall>l. \<forall>r\<in>set (lists st l). task_ok (objs st r) \<and> r < fresh st)"

definition heap_inv :: "bot \<Rightarrow> bool" where
  "heap_inv st \<longleftrightarrow> objs_ok st \<and> tasks_ref st < fresh st \<and> file_ok (disk st)"

definition loop_ok :: "bot \<Rightarrow> bool" where
  "loop_ok st \<longleftrightarrow> (case loop st of
      Idle \<Rightarrow> True
    | Sending l i now p r cid c \<Rightarrow> l < fresh st \<and> i < length (lists st l) \<and> lists st l ! i = r
    | Dead e \<Rightarrow> False)"

definition bot_inv :: "bot \<Rightarrow> bool" where
  "bot_inv st \<longleftrightarrow> heap_inv st \<and> loop_ok st"

text \<open>The abstract task store that the command layer talks to (spec, section 6): a
  command leaves the store as it is, appends one well-formed task of the session
  whose schedule is after a clock reading taken by the command (reading \<open>k\<close> or
  later), or deletes every task with a given id.\<close>

inductive store_step :: "world \<Rightarrow> nat \<Rightarrow> pydict list \<Rightarrow> pydict list \<Rightarrow> bool" where
  store_keep: "store_step w k ts ts"
| store_add: "task_ok t \<Longrightarrow> map_of t ''user_id'' = Some (me w) \<Longrightarrow> map_of t ''schedule_time_utc'' = Some (PDt a)
    \<Longrightarrow> k \<le> j \<Longrightarrow> clock w j < utc_us a \<Longrightarrow> store_step w k ts (ts @ [t])"
| store_delete: "store_step w k ts (filter (\<lambda>t. dict_get t ''id'' \<noteq> PStr tid) ts)"

section \<open>Tasks\<close>

lemma task_ok_setitem_sched:
  "task_ok t \<Longrightarrow> sched_ok v \<Longrightarrow> task_ok (dict_setitem t ''schedule_time_utc'' v)"
  by (simp add: task_ok_def dict_setitem_def)

lemma task_ok_id: "task_ok t \<Longrightarrow> except_handler t p st = (Inr p, st)"
  by (auto simp: task_ok_def except_handler_def dict_getitem_def)

lemma next_repeat_sched_ok:
  "calculate_next_repeat db u t = Inr nr \<Longrightarrow> sched_ok (case nr of None \<Rightarrow> PNone | Some d \<Rightarrow> PDt d)"
  by (cases nr) (auto simp: sched_ok_def dest: calculate_next_repeat_future)

lemma after_send_ok:
  assumes "task_ok (objs st r)" "after_send w r p st = (x, st')"
  shows "(\<exists>p'. x = Inr p') \<and> task_ok (objs st' r)"
proof -
  let ?c = "calculate_next_repeat (tz_db w) (clock w (reads st)) (objs st r)"
  have n: "?c = Inr None \<Longrightarrow> task_ok (dict_setitem (objs st r) ''schedule_time_utc'' PNone)"
    using task_ok_setitem_sched[OF assms(1)] next_repeat_sched_ok[of _ _ _ None] by fastforce
  have s: "?c = Inr (Some d) \<Longrightarrow> task_ok (dict_setitem (objs st r) ''schedule_time_utc'' (PDt d))" for d
    using task_ok_setitem_sched[OF assms(1)] next_repeat_sched_ok[of _ _ _ "Some d"] by fastforce
  show ?thesis using assms task_ok_id[OF assms(1)] n s
    by (auto simp: after_send_def Let_def dict_getitem_def split: sum.splits if_splits option.splits)
qed

lemma fire_ok:
  assumes "task_ok (objs st r)" "fire w r p st = (x, st')"
  shows "(\<forall>e. x \<noteq> Crash e) \<and> task_ok (objs st' r)"
proof -
  obtain y st1 where a: "after_send w r p st = (y, st1)" by fastforce
  note ok = after_send_ok[OF assms(1) a]
  show ?thesis using assms a ok task_ok_id[OF assms(1)]
    by (auto simp: fire_def Let_def of_handled_def split: sum.splits if_splits)
qed

lemma visit_ok:
  assumes "task_ok (objs st r)" "visit w now r p st = (x, st')"
  shows "(\<forall>e. x \<noteq> Crash e) \<and> task_ok (objs st' r)"
proof -
  obtain s where s: "map_of (objs st r) ''schedule_time_utc'' = Some s" "sched_ok s"
    using assms(1) by (auto simp: task_ok_def split: option.splits)
  obtain uid where u: "map_of (objs st r) ''user_id'' = Some uid" using assms(1) by (auto simp: task_ok_def)
  obtain y st1 where f: "fire w r p st = (y, st1)" by fastforce
  note ok = fire_ok[OF assms(1) f]
  show ?thesis using assms s u f ok
    by (auto simp: visit_def Let_def dict_getitem_def py_le_dt_def sched_ok_def
        split: pyval.splits if_splits sum.splits)
qed

lemma objs_ok_frame:
  assumes "objs_ok st" "frame r st st'" "task_ok (objs st' r)"
  shows "objs_ok st'"
  using assms unfolding objs_ok_def frame_def by metis

lemma heap_inv_frame:
  assumes "heap_inv st" "frame r st st'" "task_ok (objs st' r)"
  shows "heap_inv st'"
proof -
  have "objs_ok st'" using objs_ok_frame[OF _ assms(2,3)] assms(1) by (simp add: heap_inv_def)
  then show ?thesis using assms(1,2) by (simp add: heap_inv_def frame_def)
qed

lemma objs_ok_upd [simp]:
  "objs_ok (st\<lparr>reads := n\<rparr>) = objs_ok st" "objs_ok (st\<lparr>replies := m\<rparr>) = objs_ok st"
  "objs_ok (st\<lparr>disk := f\<rparr>) = objs_ok st" "objs_ok (st\<lparr>loop := x\<rparr>) = objs_ok st"
  "objs_ok (st\<lparr>attempts := a\<rparr>) = objs_ok st" "objs_ok (st\<lparr>sent := sn\<rparr>) = objs_ok st"
  by (simp_all add: objs_ok_def)

lemma drop_eq_ConsD: "drop i xs = y # ys \<Longrightarrow> i < length xs \<and> xs ! i = y \<and> drop (Suc i) xs = ys"
  by (metis Cons_nth_drop_Suc drop_all linorder_not_le list.distinct(1) list.inject)

section \<open>Saving and rebinding \<^verbatim>\<open>self.tasks\<close>\<close>

lemma save_serialize_ok:
  assumes "task_ok t"
  shows "\<exists>ob. save_serialize t = Inr ob \<and> map_of ob ''id'' \<noteq> None \<and> map_of ob ''user_id'' \<noteq> None"
proof -
  obtain s where s: "map_of t ''schedule_time_utc'' = Some s" "sched_ok s"
    using assms by (auto simp: task_ok_def split: option.splits)
  have k: "map_of t ''id'' \<noteq> None" "map_of t ''user_id'' \<noteq> None" using assms by (simp_all add: task_ok_def)
  consider "s = PNone" | a where "s = PDt a" using s(2) by (cases s) (simp_all add: sched_ok_def)
  then show ?thesis
  proof cases
    case 1
    then show ?thesis using s k by (simp add: save_serialize_def dict_get_def)
  next
    case 2
    then show ?thesis using s k by (simp add: save_serialize_def dict_get_def dict_setitem_def)
  qed
qed

lemma save_serialize_all_ok:
  "\<forall>t\<in>set ts. task_ok t \<Longrightarrow>
   \<exists>ser. save_serialize_all ts = Inr ser \<and> (\<forall>ob\<in>set ser. map_of ob ''id'' \<noteq> None \<and> map_of ob ''user_id'' \<noteq> None)"
proof (induction ts)
  case (Cons t ts)
  have "task_ok t" using Cons.prems by simp
  then obtain ob where o: "save_serialize t = Inr ob" "map_of ob ''id'' \<noteq> None" "map_of ob ''user_id'' \<noteq> None"
    using save_serialize_ok by blast
  obtain ser where "save_serialize_all ts = Inr ser"
    "\<forall>ob\<in>set ser. map_of ob ''id'' \<noteq> None \<and> map_of ob ''user_id'' \<noteq> None"
    using Cons.IH Cons.prems by auto
  then show ?case using o by simp
qed simp

lemma save_tasks_ok:
  assumes "\<forall>t\<in>set ts. task_ok t"
  shows "\<exists>f. save_tasks ts = Inr f \<and> file_ok f"
proof -
  obtain ser where s: "save_serialize_all ts = Inr ser"
    "\<forall>ob\<in>set ser. map_of ob ''id'' \<noteq> None \<and> map_of ob ''user_id'' \<noteq> None"
    using save_serialize_all_ok[OF assms] by blast
  have "file_ok (dump_file (PList (map PDict ser)))" using s(2) by (simp add: dump_file_def file_ok_def)
  then show ?thesis using s(1) by (simp add: save_tasks_def)
qed

lemma save_tasks_file_ok:
  "\<forall>t\<in>set ts. task_ok t \<Longrightarrow> save_tasks ts = Inr f \<Longrightarrow> file_ok f"
  using save_tasks_ok by fastforce

lemma filter_pending_ok:
  "\<forall>r\<in>set rs. task_ok (h r) \<Longrightarrow> \<exists>keep. filter_pending h rs p = Inr keep \<and> set keep \<subseteq> set rs"
  by (induction rs) (auto simp: task_ok_def dict_getitem_def)

lemma keep_other_ids_subset:
  "keep_other_ids h tid rs = Inr keep \<Longrightarrow> set keep \<subseteq> set rs"
  by (induction rs arbitrary: keep) (auto simp: pbind_eq_Inr split: if_splits)

lemma cur_tasks_ok: "heap_inv st \<Longrightarrow> \<forall>t\<in>set (cur_tasks st). task_ok t"
  by (auto simp: cur_tasks_def heap_inv_def objs_ok_def)

lemma heap_inv_disk [simp]: "heap_inv (st\<lparr>disk := f\<rparr>) \<longleftrightarrow> objs_ok st \<and> tasks_ref st < fresh st \<and> file_ok f"
  by (simp add: heap_inv_def objs_ok_def)

lemma rebind_heap_inv:
  assumes "heap_inv st" "set keep \<subseteq> set (lists st (tasks_ref st))"
  shows "heap_inv (st\<lparr>lists := (lists st)(fresh st := keep), tasks_ref := fresh st, fresh := Suc (fresh st)\<rparr>)"
proof -
  have all: "\<forall>l. \<forall>r\<in>set (lists st l). task_ok (objs st r) \<and> r < fresh st"
    using assms(1) by (simp add: heap_inv_def objs_ok_def)
  have "\<forall>r\<in>set (((lists st)(fresh st := keep)) l). task_ok (objs st r) \<and> r < Suc (fresh st)" for l
    using all assms(2) by (cases "l = fresh st") (auto intro: less_SucI)
  then show ?thesis using assms(1) by (simp add: heap_inv_def objs_ok_def)
qed

lemma rebind_loop_ok:
  "loop_ok st \<Longrightarrow> loop_ok (st\<lparr>lists := (lists st)(fresh st := keep), tasks_ref := fresh st, fresh := Suc (fresh st)\<rparr>)"
  by (auto simp: loop_ok_def split: loop_state.splits)

section \<open>The loop preserves the invariant\<close>

lemma finish_tick_inv:
  assumes "heap_inv st"
  shows "heap_inv (finish_tick p st) \<and> loop (finish_tick p st) = Idle"
proof (cases "p = []")
  case True
  then show ?thesis using assms by (simp add: finish_tick_def heap_inv_def objs_ok_def)
next
  case False
  have all: "\<forall>r\<in>set (lists st (tasks_ref st)). task_ok (objs st r)"
    using assms by (simp add: heap_inv_def objs_ok_def)
  obtain keep where k: "filter_pending (objs st) (lists st (tasks_ref st)) p = Inr keep"
    "set keep \<subseteq> set (lists st (tasks_ref st))"
    using filter_pending_ok[OF all] by blast
  define st1 where "st1 = st\<lparr>lists := (lists st)(fresh st := keep), tasks_ref := fresh st, fresh := Suc (fresh st)\<rparr>"
  have h1: "heap_inv st1" using rebind_heap_inv[OF assms k(2)] by (simp add: st1_def)
  have "\<forall>t\<in>set (map (objs st1) keep). task_ok t" using all k(2) by (auto simp: st1_def)
  then obtain f where f: "save_tasks (map (objs st1) keep) = Inr f" "file_ok f" using save_tasks_ok by blast
  have "finish_tick p st = st1\<lparr>disk := f, loop := Idle\<rparr>"
    using False k(1) f(1) by (simp add: finish_tick_def Let_def st1_def)
  then show ?thesis using h1 f(2) by (simp add: heap_inv_def objs_ok_def)
qed

lemma scan_refs_inv:
  assumes "heap_inv st" "rs = drop i (lists st l)" "l < fresh st"
  shows "bot_inv (scan_refs w now l i rs p st)"
  using assms
proof (induction rs arbitrary: i p st)
  case Nil
  then show ?case using finish_tick_inv[of st p] by (simp add: bot_inv_def loop_ok_def)
next
  case (Cons r rs)
  note d = drop_eq_ConsD[OF Cons.prems(2)[symmetric]]
  have t: "task_ok (objs st r)" using Cons.prems(1) d nth_mem[of i "lists st l"] by (auto simp: heap_inv_def objs_ok_def)
  obtain x st' where v: "visit w now r p st = (x, st')" by fastforce
  note fr = visit_frame[OF v] and ok = visit_ok[OF t v]
  have h': "heap_inv st'" using heap_inv_frame[OF Cons.prems(1) fr] ok by simp
  have same: "lists st' = lists st" "fresh st' = fresh st" using fr by (simp_all add: frame_def)
  show ?case
  proof (cases x)
    case (Next p1)
    then show ?thesis using Cons.IH[OF h', of "Suc i" p1] v d same Cons.prems(3) by simp
  next
    case (Await cid c)
    then show ?thesis using v d same h' Cons.prems(3)
      by (simp add: bot_inv_def loop_ok_def heap_inv_def objs_ok_def)
  next
    case (Crash e)
    then show ?thesis using ok by simp
  qed
qed

lemma resume_send_ok:
  assumes "task_ok (objs st r)" "resume_send w r p cid c st = (x, st')"
  shows "(\<exists>p'. x = Inr p') \<and> frame r st st' \<and> task_ok (objs st' r)"
proof (cases "send_ok w (attempts st)")
  case True
  define st1 where "st1 = st\<lparr>attempts := Suc (attempts st), sent := sent st @ [(r, cid, c)]\<rparr>"
  have a: "after_send w r p st1 = (x, st')" using assms(2) True by (simp add: resume_send_def st1_def)
  have "task_ok (objs st1 r)" using assms(1) by (simp add: st1_def)
  then show ?thesis using after_send_ok[OF _ a] after_send_frame[OF a] by (simp add: frame_def st1_def)
next
  case False
  then show ?thesis using assms task_ok_id[OF assms(1)] by (auto simp: resume_send_def frame_def)
qed

lemma sched_step_inv:
  assumes "bot_inv st"
  shows "bot_inv (sched_step w st)"
proof (cases "loop st")
  case Idle
  have "heap_inv (st\<lparr>reads := Suc (reads st)\<rparr>)" using assms by (simp add: bot_inv_def heap_inv_def objs_ok_def)
  then show ?thesis using Idle scan_refs_inv[of "st\<lparr>reads := Suc (reads st)\<rparr>" "lists st (tasks_ref st)" 0 "tasks_ref st"] assms
    by (simp add: sched_step_def bot_inv_def heap_inv_def Let_def)
next
  case (Sending l i now p r cid c)
  have s: "l < fresh st" "i < length (lists st l)" "lists st l ! i = r" "heap_inv st"
    using assms Sending by (simp_all add: bot_inv_def loop_ok_def)
  have t: "task_ok (objs st r)" using s nth_mem[of i "lists st l"] by (auto simp: heap_inv_def objs_ok_def)
  obtain x st2 where rs: "resume_send w r p cid c st = (x, st2)" by fastforce
  obtain p2 where p2: "x = Inr p2" and fr: "frame r st st2" and t2: "task_ok (objs st2 r)"
    using resume_send_ok[OF t rs] by blast
  have h2: "heap_inv st2" using heap_inv_frame[OF s(4) fr t2] .
  have "lists st2 = lists st" "fresh st2 = fresh st" using fr by (simp_all add: frame_def)
  then show ?thesis using Sending rs p2 scan_refs_inv[OF h2, of "drop (Suc i) (lists st2 l)" "Suc i" l] s(1)
    by (simp add: sched_step_def)
next
  case (Dead e)
  then show ?thesis using assms by (simp add: bot_inv_def loop_ok_def)
qed

section \<open>The handlers preserve the invariant\<close>

lemma loop_ok_upd [simp]:
  "loop_ok (st\<lparr>reads := n\<rparr>) = loop_ok st" "loop_ok (st\<lparr>replies := m\<rparr>) = loop_ok st"
  "loop_ok (st\<lparr>disk := f\<rparr>) = loop_ok st"
  by (cases "loop st"; simp add: loop_ok_def)+

lemma bot_inv_upd [simp]:
  "bot_inv (st\<lparr>reads := n\<rparr>) = bot_inv st" "bot_inv (reply_with m st) = bot_inv st"
  by (simp_all add: bot_inv_def heap_inv_def reply_with_def)

lemma bot_inv_disk: "bot_inv st \<Longrightarrow> file_ok f \<Longrightarrow> bot_inv (st\<lparr>disk := f\<rparr>)"
  by (simp add: bot_inv_def heap_inv_def)

lemma append_task_inv:
  assumes "append_task t st = (st', b)" "bot_inv st" "task_ok t"
  shows "bot_inv st'"
proof -
  define st1 where "st1 = st\<lparr>objs := (objs st)(fresh st := t),
    lists := (lists st)(tasks_ref st := lists st (tasks_ref st) @ [fresh st]), fresh := Suc (fresh st)\<rparr>"
  have all: "\<forall>l. \<forall>r\<in>set (lists st l). task_ok (objs st r) \<and> r < fresh st"
    using assms(2) by (simp add: bot_inv_def heap_inv_def objs_ok_def)
  have "task_ok (objs st1 r) \<and> r < fresh st1" if "r \<in> set (lists st1 l)" for l r
  proof (cases "r = fresh st")
    case True
    then show ?thesis using assms(3) by (simp add: st1_def)
  next
    case False
    then have "r \<in> set (lists st l) \<or> r \<in> set (lists st (tasks_ref st))"
      using that by (auto simp: st1_def split: if_splits)
    then show ?thesis using all False by (auto simp: st1_def intro: less_SucI)
  qed
  then have o: "objs_ok st1" by (simp add: objs_ok_def)
  have lp: "loop_ok st1"
    using assms(2) by (auto simp: st1_def bot_inv_def loop_ok_def nth_append split: loop_state.splits)
  have h: "tasks_ref st1 < fresh st1" "file_ok (disk st1)"
    using assms(2) by (simp_all add: st1_def bot_inv_def heap_inv_def)
  have ct: "\<forall>t\<in>set (cur_tasks st1). task_ok t" using o by (auto simp: cur_tasks_def objs_ok_def)
  have "st' = st1 \<or> (\<exists>f. save_tasks (cur_tasks st1) = Inr f \<and> st' = st1\<lparr>disk := f\<rparr>)"
    using assms(1) by (auto simp: append_task_def Let_def st1_def split: sum.splits)
  then show ?thesis
  proof
    assume "st' = st1"
    then show ?thesis using o lp h by (simp add: bot_inv_def heap_inv_def)
  next
    assume "\<exists>f. save_tasks (cur_tasks st1) = Inr f \<and> st' = st1\<lparr>disk := f\<rparr>"
    then obtain f where f: "save_tasks (cur_tasks st1) = Inr f" "st' = st1\<lparr>disk := f\<rparr>" by blast
    have "file_ok f" using save_tasks_file_ok[OF ct f(1)] .
    then show ?thesis using o lp h f(2) by (simp add: bot_inv_def heap_inv_def)
  qed
qed

text \<open>The end of \<^verbatim>\<open>/kirim\<close> and \<^verbatim>\<open>/ulang\<close>: append, save, reply.\<close>

lemma append_reply_inv:
  assumes "bot_inv s" "task_ok t"
  shows "bot_inv (case append_task t s of (st3, True) \<Rightarrow> reply_with m st3 | (st3, False) \<Rightarrow> st3)"
proof -
  obtain st3 b where e: "append_task t s = (st3, b)" by fastforce
  then show ?thesis using append_task_inv[OF e assms] by (cases b) simp_all
qed

lemma parse_sched_ok: "parse_time_input tz u s = Some dt \<Longrightarrow> sched_ok (PDt dt)"
  using parse_result_form as_utc_whole_minute by (fastforce simp: sched_ok_def)

lemma first_run_sched_ok: "calculate_next_repeat db u t = Inr (Some d) \<Longrightarrow> sched_ok (PDt d)"
  by (simp add: sched_ok_def calculate_next_repeat_future)

lemma kirim_once_inv:
  assumes "bot_inv st"
  shows "bot_inv (kirim_once w env args st)"
proof (cases "length args < 3 \<or> py_int (args ! 1) = None
    \<or> parse_time_input (default_tz env) (clock w (reads st)) (args ! 0) = None")
  case True
  then show ?thesis using assms by (auto simp: kirim_once_def Let_def read_clock_def split: option.splits)
next
  case False
  then obtain cid dt where c: "\<not> length args < 3" "py_int (args ! 1) = Some cid"
    "parse_time_input (default_tz env) (clock w (reads st)) (args ! 0) = Some dt" by auto
  have t: "task_ok [(''id'', i), (''user_id'', u), (''channel_id'', ch), (''content'', m),
      (''repeat_type'', r), (''schedule_time_utc'', PDt dt), (''timezone'', z)]" for i u ch m r z
    using parse_sched_ok[OF c(3)] by (simp add: task_ok_def)
  show ?thesis using assms c append_reply_inv[OF _ t]
    by (simp add: kirim_once_def Let_def read_clock_def split: if_split)
qed

lemma sum_case_inv:
  "(\<And>m. P (g m)) \<Longrightarrow> (\<And>a b c d. P (F a b c d))
   \<Longrightarrow> P (case x of Inl m \<Rightarrow> g m | Inr (a, b, c, d) \<Rightarrow> F a b c d)"
  by (auto split: sum.split prod.split)

lemma kirim_repeat_inv:
  assumes "bot_inv st"
  shows "bot_inv (kirim_repeat w env tipe args st)"
proof -
  have k: "bot_inv (case append_task [(''id'', i), (''user_id'', u), (''channel_id'', ch), (''content'', m),
      (''repeat_type'', r), (''repeat_value'', v), (''repeat_day'', d), (''schedule_time_utc'', PDt dt),
      (''timezone'', z)] s of (st3, True) \<Rightarrow> reply_with msg st3 | (st3, False) \<Rightarrow> st3)"
    if "bot_inv s" "calculate_next_repeat db uu tmp = Inr (Some dt)" for s db uu tmp dt i u ch m r v d z msg
    using append_reply_inv[OF that(1)] first_run_sched_ok[OF that(2)] by (simp add: task_ok_def)
  show ?thesis
    unfolding kirim_repeat_def Let_def
    apply (rule sum_case_inv[where P = bot_inv])
     apply (simp add: assms)
    using assms by (auto simp: read_clock_def intro: k split: option.splits sum.splits)
qed

lemma list_tasks_inv: "bot_inv st \<Longrightarrow> bot_inv (list_tasks w st)"
  by (auto simp: list_tasks_def split: sum.splits list.splits)

lemma delete_task_inv:
  assumes "bot_inv st"
  shows "bot_inv (delete_task args st)"
proof (cases "length args > 1 \<or> args = []")
  case True
  then show ?thesis using assms by (auto simp: delete_task_def)
next
  case False
  then obtain tid where a: "args = [tid]" by (cases args) auto
  show ?thesis
  proof (cases "keep_other_ids (objs st) tid (lists st (tasks_ref st))")
    case (Inl e)
    then show ?thesis using assms a by (simp add: delete_task_def)
  next
    case (Inr keep)
    define st1 where "st1 = st\<lparr>lists := (lists st)(fresh st := keep), tasks_ref := fresh st, fresh := Suc (fresh st)\<rparr>"
    have i1: "bot_inv st1"
      using rebind_heap_inv[OF _ keep_other_ids_subset[OF Inr]] rebind_loop_ok assms
      by (simp add: bot_inv_def st1_def)
    have "\<forall>t\<in>set (cur_tasks st1). task_ok t" using cur_tasks_ok[of st1] i1 by (simp add: bot_inv_def)
    then have "bot_inv (settle st1 (pbind (save_tasks (cur_tasks st1)) (\<lambda>f. Inr (reply_with m (st1\<lparr>disk := f\<rparr>)))))"
      for m using i1 save_tasks_file_ok by (auto simp: settle_def pbind_def intro: bot_inv_disk split: sum.splits)
    then show ?thesis using Inr a i1 by (simp add: delete_task_def Let_def st1_def)
  qed
qed

lemma on_message_inv: "bot_inv st \<Longrightarrow> bot_inv (on_message w env msg st)"
  by (auto simp: on_message_def Let_def route_repeat_def kirim_once_inv kirim_repeat_inv list_tasks_inv
      delete_task_inv split: list.splits)

section \<open>Reachable states\<close>

lemma loaded_task_ok:
  assumes "file_ok f" "t \<in> set (load_tasks f)"
  shows "task_ok t"
proof -
  obtain items v where m: "f = Stored (PList items)" "v \<in> set items" "load_convert v = Inr t"
      "py_truthy (dict_get t ''schedule_time_utc'')"
    using load_tasks_mem[OF assms(2)] by blast
  obtain d where d: "v = PDict d" using m(3) by (cases v) (simp_all add: load_convert_def)
  have k: "map_of d ''id'' \<noteq> None" "map_of d ''user_id'' \<noteq> None"
    using assms(1) m(1,2) d by (auto simp: file_ok_def)
  have "map_of t k = map_of d k" if "k \<noteq> ''schedule_time_utc''" for k
    using m(3) d that by (auto simp: load_convert_def dict_setitem_def split: if_splits)
  moreover obtain a where "map_of t ''schedule_time_utc'' = Some (PDt a)" "utcoff a = 0"
      "second (wall a) = 0" "microsecond (wall a) = 0"
    using load_convert_sched[OF m(3,4)] by blast
  ultimately show ?thesis using k by (simp add: task_ok_def sched_ok_def)
qed

lemma init_bot_inv:
  assumes "file_ok f"
  shows "bot_inv (init_bot f)"
proof -
  have "task_ok (load_tasks f ! r)" if "r < length (load_tasks f)" for r
    using loaded_task_ok[OF assms] that nth_mem by blast
  then show ?thesis using assms
    by (auto simp: init_bot_def Let_def bot_inv_def heap_inv_def objs_ok_def loop_ok_def)
qed

inductive_cases bot_stepE: "bot_step w env st st'"

lemma reachable_inv: "reachable w env f st \<Longrightarrow> file_ok f \<Longrightarrow> bot_inv st"
proof (induction rule: reachable.induct)
  case start
  then show ?case by (rule init_bot_inv)
next
  case (step w env f st st')
  then have "bot_inv st" by simp
  with step.hyps(2) show ?case by (auto elim!: bot_stepE intro: sched_step_inv on_message_inv)
qed

section \<open>The command layer refines the abstract store\<close>

lemma cur_tasks_upd [simp]:
  "cur_tasks (st\<lparr>reads := n\<rparr>) = cur_tasks st" "cur_tasks (reply_with m st) = cur_tasks st"
  "cur_tasks (st\<lparr>disk := f\<rparr>) = cur_tasks st"
  by (simp_all add: cur_tasks_def reply_with_def)

lemma cur_tasks_append:
  assumes "objs_ok s"
  shows "cur_tasks (case append_task t s of (st3, True) \<Rightarrow> reply_with m st3 | (st3, False) \<Rightarrow> st3)
    = cur_tasks s @ [t]"
proof -
  have "fresh s \<notin> set (lists s (tasks_ref s))" using assms by (auto simp: objs_ok_def)
  then have c: "cur_tasks (fst (append_task t s)) = cur_tasks s @ [t]"
    by (simp add: cur_tasks_def append_task_fields)
  obtain st3 b where "append_task t s = (st3, b)" by fastforce
  then show ?thesis using c by (cases b) simp_all
qed

lemma append_store:
  assumes "objs_ok s" "cur_tasks s = ts" "task_ok t" "map_of t ''user_id'' = Some (me w)"
    "map_of t ''schedule_time_utc'' = Some (PDt a)" "k \<le> j" "clock w j < utc_us a"
  shows "store_step w k ts (cur_tasks (case append_task t s of (st3, True) \<Rightarrow> reply_with m st3 | (st3, False) \<Rightarrow> st3))"
  using store_add[OF assms(3-7)] cur_tasks_append[OF assms(1)] assms(2) by simp

lemma kirim_once_store:
  assumes "bot_inv st"
  shows "store_step w (reads st) (cur_tasks st) (cur_tasks (kirim_once w env args st))"
proof (cases "length args < 3 \<or> py_int (args ! 1) = None
    \<or> parse_time_input (default_tz env) (clock w (reads st)) (args ! 0) = None")
  case True
  then have "cur_tasks (kirim_once w env args st) = cur_tasks st"
    by (auto simp: kirim_once_def Let_def read_clock_def split: option.splits)
  then show ?thesis using store_keep by simp
next
  case False
  then obtain cid dt where c: "\<not> length args < 3" "py_int (args ! 1) = Some cid"
    "parse_time_input (default_tz env) (clock w (reads st)) (args ! 0) = Some dt" by auto
  have o: "objs_ok st" using assms by (simp add: bot_inv_def heap_inv_def)
  have a: "store_step w (reads st) (cur_tasks st) (cur_tasks (case append_task
      [(''id'', i), (''user_id'', me w), (''channel_id'', ch), (''content'', m), (''repeat_type'', r),
       (''schedule_time_utc'', PDt dt), (''timezone'', z)] s of (st3, True) \<Rightarrow> reply_with msg st3 | (st3, False) \<Rightarrow> st3))"
    if "objs_ok s" "cur_tasks s = cur_tasks st" "\<not> aware_le dt (now_in (\<lambda>_. 0) (clock w (Suc (reads st))))"
    for s i ch m r z msg
  proof (rule append_store[OF that(1,2)])
    show "task_ok [(''id'', i), (''user_id'', me w), (''channel_id'', ch), (''content'', m), (''repeat_type'', r),
       (''schedule_time_utc'', PDt dt), (''timezone'', z)]"
      using parse_sched_ok[OF c(3)] by (simp add: task_ok_def)
    show "clock w (Suc (reads st)) < utc_us dt" using that(3) by (simp add: aware_le_def)
  qed simp_all
  show ?thesis using c o a store_keep
    by (simp add: kirim_once_def Let_def read_clock_def split: if_split)
qed

lemma kirim_repeat_store:
  assumes "bot_inv st"
  shows "store_step w (reads st) (cur_tasks st) (cur_tasks (kirim_repeat w env tipe args st))"
proof -
  have o: "objs_ok st" using assms by (simp add: bot_inv_def heap_inv_def)
  have k: "store_step w (reads st) (cur_tasks st) (cur_tasks (case append_task
      [(''id'', i), (''user_id'', me w), (''channel_id'', ch), (''content'', m), (''repeat_type'', r),
       (''repeat_value'', v), (''repeat_day'', d), (''schedule_time_utc'', PDt dt), (''timezone'', z)] s
      of (st3, True) \<Rightarrow> reply_with msg st3 | (st3, False) \<Rightarrow> st3))"
    if "s = st\<lparr>reads := Suc (reads st)\<rparr>" "calculate_next_repeat db (clock w (reads st)) tmp = Inr (Some dt)"
    for s db tmp dt i ch m r v d z msg
  proof (rule append_store)
    show "task_ok [(''id'', i), (''user_id'', me w), (''channel_id'', ch), (''content'', m), (''repeat_type'', r),
       (''repeat_value'', v), (''repeat_day'', d), (''schedule_time_utc'', PDt dt), (''timezone'', z)]"
      using first_run_sched_ok[OF that(2)] by (simp add: task_ok_def)
    show "clock w (reads st) < utc_us dt" using calculate_next_repeat_future[OF that(2)] by simp
  qed (use that o in simp_all)
  show ?thesis
    unfolding kirim_repeat_def Let_def
    apply (rule sum_case_inv[where P = "\<lambda>x. store_step w (reads st) (cur_tasks st) (cur_tasks x)"])
     apply (simp add: store_keep)
    by (auto simp: read_clock_def store_keep intro: k split: option.splits sum.splits)
qed

lemma delete_task_store:
  assumes "bot_inv st"
  shows "store_step w k (cur_tasks st) (cur_tasks (delete_task args st))"
proof (cases "length args > 1 \<or> args = []")
  case True
  then show ?thesis using store_keep by (auto simp: delete_task_def)
next
  case False
  then obtain tid where a: "args = [tid]" by (cases args) auto
  have ids: "\<forall>x\<in>set (lists st (tasks_ref st)). map_of (objs st x) ''id'' \<noteq> None"
    using assms by (auto simp: bot_inv_def heap_inv_def objs_ok_def task_ok_def)
  define keep where "keep = filter (\<lambda>x. \<not> py_eq (dict_get (objs st x) ''id'') (PStr tid)) (lists st (tasks_ref st))"
  define st1 where "st1 = st\<lparr>lists := (lists st)(fresh st := keep), tasks_ref := fresh st, fresh := Suc (fresh st)\<rparr>"
  have c1: "cur_tasks st1 = filter (\<lambda>t. dict_get t ''id'' \<noteq> PStr tid) (cur_tasks st)"
    by (simp add: st1_def keep_def cur_tasks_def filter_map comp_def)
  have "cur_tasks (settle st1 (pbind (save_tasks (cur_tasks st1)) (\<lambda>f. Inr (reply_with m (st1\<lparr>disk := f\<rparr>)))))
      = cur_tasks st1" for m
    by (auto simp: settle_def pbind_def split: sum.splits)
  then have "cur_tasks (delete_task args st) = cur_tasks st1"
    using a keep_other_ids_filter[OF ids, of tid] by (simp add: delete_task_def Let_def keep_def st1_def)
  then show ?thesis using c1 store_delete by simp
qed

lemma on_message_store:
  "bot_inv st \<Longrightarrow> store_step w (reads st) (cur_tasks st) (cur_tasks (on_message w env msg st))"
  by (auto simp: on_message_def Let_def route_repeat_def list_tasks_def kirim_once_store kirim_repeat_store
      delete_task_store store_keep split: list.splits sum.splits)

section \<open>Every due task is sent\<close>

text \<open>The scan of a tick reaches the first occurrence \<open>q\<close> of a due task \<open>r\<close>: it
  stops at a send at some index up to \<open>q\<close>, and at \<open>q\<close> with the task's own channel
  and content; the task object is untouched until then.\<close>

lemma scan_reaches:
  assumes "heap_inv st" "rs = drop i (lists st l)" "i \<le> q" "q < length (lists st l)" "lists st l ! q = r"
    "\<forall>k<q. lists st l ! k \<noteq> r" "sendable w now (objs st r)"
  shows "\<exists>j p' cid c. loop (scan_refs w now l i rs p st) = Sending l j now p' (lists st l ! j) cid c
     \<and> i \<le> j \<and> j \<le> q
     \<and> (j = q \<longrightarrow> cid = dict_get (objs st r) ''channel_id'' \<and> c = dict_get (objs st r) ''content'')
     \<and> objs (scan_refs w now l i rs p st) r = objs st r \<and> lists (scan_refs w now l i rs p st) = lists st
     \<and> fresh (scan_refs w now l i rs p st) = fresh st \<and> heap_inv (scan_refs w now l i rs p st)"
  using assms
proof (induction rs arbitrary: i p st)
  case Nil
  then show ?case by auto
next
  case (Cons r1 rs)
  note d = drop_eq_ConsD[OF Cons.prems(2)[symmetric]]
  have t: "task_ok (objs st r1)" using Cons.prems(1) d nth_mem[of i "lists st l"] by (auto simp: heap_inv_def objs_ok_def)
  show ?case
  proof (cases "i = q")
    case True
    then have r1: "r1 = r" using d Cons.prems(5) by simp
    have "visit w now r1 p st = (Await (dict_get (objs st r) ''channel_id'') (dict_get (objs st r) ''content''), st)"
      using visit_sendable Cons.prems(7) r1 by simp
    then show ?thesis using True d Cons.prems(1) r1 by (simp add: heap_inv_def)
  next
    case False
    then have iq: "i < q" using Cons.prems(3) by simp
    have ne: "r1 \<noteq> r" using Cons.prems(6) iq d by auto
    obtain x st' where v: "visit w now r1 p st = (x, st')" by fastforce
    note fr = visit_frame[OF v] and ok = visit_ok[OF t v]
    have h': "heap_inv st'" using heap_inv_frame[OF Cons.prems(1) fr] ok by simp
    have same: "lists st' = lists st" "fresh st' = fresh st" "objs st' r = objs st r"
      using fr ne by (auto simp: frame_def)
    show ?thesis
    proof (cases x)
      case (Next p1)
      have "rs = drop (Suc i) (lists st' l)" "Suc i \<le> q" using d same iq by simp_all
      from Cons.IH[OF h' this, of p1] show ?thesis using v Next same Cons.prems(4-7) by force
    next
      case (Await cid c)
      then show ?thesis using v d same h' iq by (simp add: heap_inv_def)
    next
      case (Crash e)
      then show ?thesis using ok by simp
    qed
  qed
qed

text \<open>From a send at index \<open>j\<close> up to \<open>q\<close>, the rest of the tick delivers the
  task, when every send succeeds.\<close>

lemma sending_reaches:
  assumes "heap_inv st" "loop st = Sending l j now p (lists st l ! j) cid c" "j \<le> q" "q < length (lists st l)"
    "lists st l ! q = r" "\<forall>k<q. lists st l ! k \<noteq> r"
    "j = q \<longrightarrow> cid = dict_get t0 ''channel_id'' \<and> c = dict_get t0 ''content''"
    "j < q \<longrightarrow> objs st r = t0" "sendable w now t0" "\<forall>k. send_ok w k" "length (lists st l) - j \<le> k"
    "m \<le> length (sent st)"
  shows "(r, dict_get t0 ''channel_id'', dict_get t0 ''content'') \<in> set (drop m (sent (run_sched k w st)))"
  using assms
proof (induction k arbitrary: st j p cid c)
  case 0
  then show ?case by simp
next
  case (Suc k)
  let ?r0 = "lists st l ! j"
  have jl: "j < length (lists st l)" using Suc.prems(3,4) by simp
  have t: "task_ok (objs st ?r0)"
    using Suc.prems(1) nth_mem[OF jl] by (auto simp: heap_inv_def objs_ok_def)
  obtain x st2 where rs: "resume_send w ?r0 p cid c st = (x, st2)" by fastforce
  obtain p2 where p2: "x = Inr p2" and fr: "frame ?r0 st st2" and t2: "task_ok (objs st2 ?r0)"
    using resume_send_ok[OF t rs] by blast
  have sent2: "sent st2 = sent st @ [(?r0, cid, c)]" using resume_send_sent[OF rs] Suc.prems(10) by simp
  have step: "sched_step w st = scan_refs w now l (Suc j) (drop (Suc j) (lists st2 l)) p2 st2"
    using Suc.prems(2) rs p2 by (simp add: sched_step_def)
  have m2: "m \<le> length (sent (sched_step w st))"
    using sched_step_sent_prefix[of w st] Suc.prems(12) by auto
  have mono: "set (drop m (sent (sched_step w st))) \<subseteq> set (drop m (sent (run_sched (Suc k) w st)))"
    using run_sched_sent_prefix[of k w "sched_step w st"] set_drop_append_mono[OF m2]
    by (auto simp: Let_def split: loop_state.splits)
  show ?case
  proof (cases "j = q")
    case True
    then have "(r, dict_get t0 ''channel_id'', dict_get t0 ''content'') \<in> set (drop m (sent (sched_step w st)))"
      using step sent2 scan_refs_counts Suc.prems(5,7) in_set_drop_append[OF Suc.prems(12)] by simp
    then show ?thesis using mono by blast
  next
    case False
    then have jq: "j < q" using Suc.prems(3) by simp
    have ne: "?r0 \<noteq> r" using Suc.prems(6) jq by auto
    have h2: "heap_inv st2" using heap_inv_frame[OF Suc.prems(1) fr t2] .
    have same: "lists st2 = lists st" "objs st2 r = t0"
      using fr ne Suc.prems(8) jq by (auto simp: frame_def)
    have "drop (Suc j) (lists st2 l) = drop (Suc j) (lists st2 l)" "Suc j \<le> q" using jq by simp_all
    from scan_reaches[OF h2 this(1) this(2), of r w now p2] same Suc.prems(4-6,9)
    obtain j' p' cid' c' where s: "loop (sched_step w st) = Sending l j' now p' (lists st l ! j') cid' c'"
        "Suc j \<le> j'" "j' \<le> q" "j' = q \<longrightarrow> cid' = dict_get t0 ''channel_id'' \<and> c' = dict_get t0 ''content''"
        "objs (sched_step w st) r = t0" "lists (sched_step w st) = lists st" "heap_inv (sched_step w st)"
      using step by auto
    have "(r, dict_get t0 ''channel_id'', dict_get t0 ''content'') \<in> set (drop m (sent (run_sched k w (sched_step w st))))"
      using Suc.IH[of "sched_step w st" j' p' cid' c'] s Suc.prems(4-6,9-11) m2 by simp
    then show ?thesis using s(1) by simp
  qed
qed

lemma tick_reaches:
  assumes "bot_inv st" "loop st = Idle" "r \<in> set (lists st (tasks_ref st))"
    "sendable w (now_in (\<lambda>_. 0) (clock w (reads st))) (objs st r)" "\<forall>k. send_ok w k"
  shows "(r, dict_get (objs st r) ''channel_id'', dict_get (objs st r) ''content'')
    \<in> set (drop (length (sent st)) (sent (run_sched (Suc (length (lists st (tasks_ref st)))) w st)))"
proof -
  let ?xs = "lists st (tasks_ref st)" and ?now = "now_in (\<lambda>_. 0) (clock w (reads st))"
  let ?q = "py_index ?xs r" and ?st1 = "st\<lparr>reads := Suc (reads st)\<rparr>"
  have q1: "?q < length ?xs" using py_index_less[OF assms(3)] .
  have q2: "?xs ! ?q = r" using py_index_nth[OF assms(3)] .
  have q3: "\<forall>k<?q. ?xs ! k \<noteq> r" by (simp add: py_index_before)
  note q = q1 q2 q3
  have h1: "heap_inv ?st1" using assms(1) by (simp add: bot_inv_def heap_inv_def)
  have e: "sched_step w st = scan_refs w ?now (tasks_ref st) 0 ?xs [] ?st1"
    using assms(2) by (simp add: sched_step_def Let_def)
  obtain j p' cid c where s: "loop (sched_step w st) = Sending (tasks_ref st) j ?now p' (?xs ! j) cid c"
      "j \<le> ?q" "j = ?q \<longrightarrow> cid = dict_get (objs st r) ''channel_id'' \<and> c = dict_get (objs st r) ''content''"
      "objs (sched_step w st) r = objs st r" "lists (sched_step w st) = lists st" "heap_inv (sched_step w st)"
    using scan_reaches[OF h1, where rs = ?xs and i = 0 and l = "tasks_ref st" and q = ?q and r = r
        and w = w and now = ?now and p = "[]"] q assms(4) e by auto
  have "(r, dict_get (objs st r) ''channel_id'', dict_get (objs st r) ''content'')
      \<in> set (drop (length (sent st)) (sent (run_sched (length ?xs) w (sched_step w st))))"
    using sending_reaches[OF s(6), of "tasks_ref st" j ?now p' cid c ?q r "objs st r" w "length ?xs" "length (sent st)"]
      s q assms(4,5) scan_refs_counts e by simp
  then show ?thesis using s(1) by simp
qed

text \<open>What a tick retires. Every id in \<^verbatim>\<open>pending_delete\<close> at the end of an
  uninterrupted tick is the id of a one-shot task of \<^verbatim>\<open>self.tasks\<close>; and the id of
  a one-shot task sent during the tick is in it.\<close>

lemma tick_pending_once_ids:
  assumes "loop st = Idle"
  shows "(\<exists>p st'. run_sched (Suc (length (lists st (tasks_ref st)))) w st = finish_tick p st'
      \<and> (\<forall>x\<in>set p. \<exists>y\<in>set (lists st (tasks_ref st)).
            map_of (objs st y) ''repeat_type'' = Some (PStr ''once'') \<and> map_of (objs st y) ''id'' = Some x)
      \<and> same_keys (objs st) (objs st') \<and> lists st' = lists st \<and> tasks_ref st' = tasks_ref st)
    \<or> (\<exists>e. loop (run_sched (Suc (length (lists st (tasks_ref st)))) w st) = Dead e)"
proof -
  let ?L = "set (lists st (tasks_ref st))"
  define Q :: "pyval list \<Rightarrow> (nat \<Rightarrow> pydict) \<Rightarrow> (nat \<times> pyval \<times> pyval) list \<Rightarrow> bool" where
    "Q = (\<lambda>p h s. \<forall>x\<in>set p. \<exists>y\<in>?L.
           map_of (objs st y) ''repeat_type'' = Some (PStr ''once'') \<and> map_of (objs st y) ''id'' = Some x)"
  have A: "Q p' h' s'" if r: "r \<in> ?L" and q: "Q p h s" and k: "same_keys (objs st) (objs st1)"
    and a: "after_send w r p st1 = (Inr p', st2)" for r p h s st1 p' st2 h' s'
    using after_send_pending[OF a]
  proof
    assume "p' = p"
    then show ?thesis using q by (simp add: Q_def)
  next
    assume "\<exists>tid. p' = p @ [tid] \<and> map_of (objs st1 r) ''repeat_type'' = Some (PStr ''once'')
        \<and> map_of (objs st1 r) ''id'' = Some tid"
    then show ?thesis using q r same_keysD[OF k] by (auto simp: Q_def)
  qed
  have V: "\<forall>now r p st1 p' st2. r \<in> ?L \<longrightarrow> Q p (objs st1) (sent st1) \<longrightarrow> same_keys (objs st) (objs st1) \<longrightarrow>
      visit w now r p st1 = (Next p', st2) \<longrightarrow> Q p' (objs st2) (sent st2)"
    using A by (blast dest: visit_next_cases)
  have R: "\<forall>r p cid c st1 p' st2. r \<in> ?L \<longrightarrow> Q p (objs st1) (sent st1) \<longrightarrow> same_keys (objs st) (objs st1) \<longrightarrow>
      resume_send w r p cid c st1 = (Inr p', st2) \<longrightarrow> Q p' (objs st2) (sent st2)"
  proof (intro allI impI)
    fix r p cid c st1 p' st2
    assume r: "r \<in> ?L" and q: "Q p (objs st1) (sent st1)" and k: "same_keys (objs st) (objs st1)"
      and rs: "resume_send w r p cid c st1 = (Inr p', st2)"
    from resume_send_cases[OF rs] show "Q p' (objs st2) (sent st2)"
    proof
      assume "p' = p \<and> objs st2 = objs st1 \<and> sent st2 = sent st1"
      then show ?thesis using q by simp
    next
      assume "after_send w r p (st1\<lparr>attempts := Suc (attempts st1), sent := sent st1 @ [(r, cid, c)]\<rparr>) = (Inr p', st2)"
      from A[OF r q _ this] show ?thesis using k by simp
    qed
  qed
  have "Q [] (objs st) (sent st)" by (simp add: Q_def)
  from tick_end[where Q=Q, OF assms this V R] show ?thesis by (simp add: Q_def)
qed

lemma tick_pending_sent_once:
  assumes "loop st = Idle" "map_of (objs st r1) ''repeat_type'' = Some (PStr ''once'')" "map_of (objs st r1) ''id'' = Some tid"
  shows "(\<exists>p st'. run_sched (Suc (length (lists st (tasks_ref st)))) w st = finish_tick p st'
      \<and> (r1 \<in> fst ` set (drop (length (sent st)) (sent st')) \<longrightarrow> tid \<in> set p)
      \<and> same_keys (objs st) (objs st') \<and> lists st' = lists st \<and> tasks_ref st' = tasks_ref st)
    \<or> (\<exists>e. loop (run_sched (Suc (length (lists st (tasks_ref st)))) w st) = Dead e)"
proof -
  let ?L = "set (lists st (tasks_ref st))" and ?m = "length (sent st)"
  define Q :: "pyval list \<Rightarrow> (nat \<Rightarrow> pydict) \<Rightarrow> (nat \<times> pyval \<times> pyval) list \<Rightarrow> bool" where
    "Q = (\<lambda>p h s. r1 \<in> fst ` set (drop ?m s) \<longrightarrow> tid \<in> set p)"
  have grow: "set p \<subseteq> set p'" if "after_send w r p st1 = (Inr p', st2)" for r p st1 p' st2
    using after_send_pending[OF that] by auto
  have V: "\<forall>now r p st1 p' st2. r \<in> ?L \<longrightarrow> Q p (objs st1) (sent st1) \<longrightarrow> same_keys (objs st) (objs st1) \<longrightarrow>
      visit w now r p st1 = (Next p', st2) \<longrightarrow> Q p' (objs st2) (sent st2)"
  proof (intro allI impI)
    fix now r p st1 p' st2
    assume q: "Q p (objs st1) (sent st1)" and v: "visit w now r p st1 = (Next p', st2)"
    from visit_next_cases[OF v] show "Q p' (objs st2) (sent st2)"
    proof
      assume a: "after_send w r p st1 = (Inr p', st2)"
      then show ?thesis using q grow[OF a] after_send_counts[OF a] by (auto simp: Q_def)
    qed (use q in simp)
  qed
  have R: "\<forall>r p cid c st1 p' st2. r \<in> ?L \<longrightarrow> Q p (objs st1) (sent st1) \<longrightarrow> same_keys (objs st) (objs st1) \<longrightarrow>
      resume_send w r p cid c st1 = (Inr p', st2) \<longrightarrow> Q p' (objs st2) (sent st2)"
  proof (intro allI impI)
    fix r p cid c st1 p' st2
    assume q: "Q p (objs st1) (sent st1)" and k: "same_keys (objs st) (objs st1)"
      and rs: "resume_send w r p cid c st1 = (Inr p', st2)"
    from resume_send_cases[OF rs] show "Q p' (objs st2) (sent st2)"
    proof
      assume "p' = p \<and> objs st2 = objs st1 \<and> sent st2 = sent st1"
      then show ?thesis using q by simp
    next
      let ?st1 = "st1\<lparr>attempts := Suc (attempts st1), sent := sent st1 @ [(r, cid, c)]\<rparr>"
      assume a: "after_send w r p ?st1 = (Inr p', st2)"
      have s2: "sent st2 = sent st1 @ [(r, cid, c)]" using after_send_counts[OF a] by simp
      show ?thesis
      proof (cases "r = r1")
        case True
        have "after_send w r p ?st1 = (Inr (p @ [tid]), ?st1)"
          using after_send_once[of ?st1 r tid w p] assms(2,3) same_keysD[OF k] True by simp
        then show ?thesis using a by (simp add: Q_def)
      next
        case False
        have "r1 \<in> fst ` set (drop ?m (sent st2)) \<Longrightarrow> r1 \<in> fst ` set (drop ?m (sent st1))"
          using s2 set_drop_append_subset[of ?m "sent st1" "[(r, cid, c)]"] False by auto
        then show ?thesis using q grow[OF a] by (auto simp: Q_def)
      qed
    qed
  qed
  have "Q [] (objs st) (sent st)" by (simp add: Q_def)
  from tick_end[where Q=Q, OF assms(1) this V R] show ?thesis by (simp add: Q_def)
qed

lemma tick_keeps_ref:
  assumes "heap_inv st" "loop st = Idle"
    "\<forall>e. loop (run_sched (Suc (length (lists st (tasks_ref st)))) w st) \<noteq> Dead e" "r \<in> set (lists st (tasks_ref st))"
    "\<forall>y\<in>set (lists st (tasks_ref st)). map_of (objs st y) ''repeat_type'' = Some (PStr ''once'')
       \<longrightarrow> \<not> py_eq (dict_get (objs st r) ''id'') (dict_get (objs st y) ''id'')"
  shows "r \<in> set (lists (run_sched (Suc (length (lists st (tasks_ref st)))) w st)
                    (tasks_ref (run_sched (Suc (length (lists st (tasks_ref st)))) w st)))"
proof -
  have ok: "\<forall>x\<in>set (lists st (tasks_ref st)). task_ok (objs st x)"
    using assms(1) by (auto simp: heap_inv_def objs_ok_def)
  obtain p stX where e: "run_sched (Suc (length (lists st (tasks_ref st)))) w st = finish_tick p stX"
    and q: "\<forall>x\<in>set p. \<exists>y\<in>set (lists st (tasks_ref st)).
              map_of (objs st y) ''repeat_type'' = Some (PStr ''once'') \<and> map_of (objs st y) ''id'' = Some x"
    and k: "same_keys (objs st) (objs stX)" and l: "lists stX = lists st" "tasks_ref stX = tasks_ref st"
    using tick_pending_once_ids[OF assms(2), of w] assms(3) by blast
  have ids: "\<forall>x\<in>set (lists stX (tasks_ref stX)). map_of (objs stX x) ''id'' \<noteq> None"
    using ok l same_keysD[OF k] by (auto simp: task_ok_def)
  have np: "\<not> py_in (dict_get (objs stX r) ''id'') p"
  proof
    assume "py_in (dict_get (objs stX r) ''id'') p"
    then obtain x where x: "x \<in> set p" "py_eq (dict_get (objs st r) ''id'') x"
      using same_keysD[OF k, of "''id''" r] by (auto simp: py_in_def dict_get_def)
    then obtain y where "y \<in> set (lists st (tasks_ref st))" "map_of (objs st y) ''repeat_type'' = Some (PStr ''once'')"
        "map_of (objs st y) ''id'' = Some x"
      using q by blast
    then show False using assms(5) x(2) by (auto simp: dict_get_def)
  qed
  show ?thesis using finish_tick_tasks[OF ids, of p] e l assms(4) np by auto
qed

lemma reachable_run_sched: "reachable w env f st \<Longrightarrow> reachable w env f (run_sched k w st)"
proof (induction k arbitrary: st)
  case (Suc k)
  have "reachable w env f (sched_step w st)" using Suc.prems by (rule reachable.step) (rule bot_step.loop_segment)
  then show ?case using Suc.IH by (auto simp: Let_def split: loop_state.splits)
qed simp

end
