(* ===== verification/Startup.thy ===== *)
theory Startup
  imports Invariant
begin

text \<open>The \<^verbatim>\<open>__main__\<close> block of \<^verbatim>\<open>src/chronoreply.py\<close>: it creates an empty
  task file when none exists, checks the token of \<^verbatim>\<open>config.py\<close> against the
  placeholder, and otherwise builds \<^verbatim>\<open>ChronoReply()\<close> (\<open>init_bot\<close> of
  Commands.thy) on the file it just ensured. \<^verbatim>\<open>exit()\<close> is the left value
  (the task file left behind), a started bot the right one; the login and the
  cog registration are I/O.\<close>

section \<open>Definitions\<close>

text \<open>\<^verbatim>\<open>if not os.path.exists(TASK_FILE): json.dump([], f)\<close>.\<close>

definition ensure_task_file :: "task_file \<Rightarrow> task_file" where
  "ensure_task_file f = (case f of NoFile \<Rightarrow> Stored (PList []) | _ \<Rightarrow> f)"

definition token_placeholder :: string where
  "token_placeholder = ''PASTIKAN_TOKEN_ANDA_ADA_DI_SINI''"

definition main_start :: "string \<Rightarrow> task_file \<Rightarrow> task_file + bot" where
  "main_start token f =
     (let f' = ensure_task_file f
      in if token = token_placeholder then Inl f' else Inr (init_bot f'))"

section \<open>Facts\<close>

lemma ensure_task_file_exists: "ensure_task_file f \<noteq> NoFile"
  by (cases f) (simp_all add: ensure_task_file_def)

lemma ensure_task_file_ok: "file_ok (ensure_task_file f) = file_ok f"
  by (cases f) (simp_all add: ensure_task_file_def file_ok_def)

lemma ensure_task_file_load: "load_tasks (ensure_task_file f) = load_tasks f"
  by (cases f) (simp_all add: ensure_task_file_def load_tasks_def load_body_def)

lemma init_bot_tasks [simp]: "cur_tasks (init_bot f) = load_tasks f"
proof -
  have "map (\<lambda>i. if i < length (load_tasks f) then load_tasks f ! i else []) [0..<length (load_tasks f)]
      = map ((!) (load_tasks f)) [0..<length (load_tasks f)]"
    by (rule map_cong) simp_all
  then show ?thesis by (simp add: init_bot_def cur_tasks_def Let_def map_nth)
qed

section \<open>Properties\<close>

text \<open>C39: the __main__ block creates the task file before it checks the token: with the placeholder token the program exits and leaves a task file behind that it did not have to create, holding the tasks it held; with any other token it starts the bot on that file, in a state that satisfies the invariant of the loop and holds exactly the tasks _load_tasks reads from the original file.\<close>

theorem main_start_outcome:
  assumes "file_ok f"
  shows "case main_start token f of
      Inl f' \<Rightarrow> token = token_placeholder \<and> f' \<noteq> NoFile \<and> file_ok f' \<and> load_tasks f' = load_tasks f
    | Inr st \<Rightarrow> token \<noteq> token_placeholder \<and> disk st \<noteq> NoFile \<and> bot_inv st \<and> loop st = Idle
        \<and> cur_tasks st = load_tasks f"
proof (cases "token = token_placeholder")
  case True
  then show ?thesis using assms ensure_task_file_exists[of f] ensure_task_file_ok[of f] ensure_task_file_load[of f]
    by (simp add: main_start_def)
next
  case False
  let ?st = "init_bot (ensure_task_file f)"
  have "bot_inv ?st" using assms ensure_task_file_ok[of f] init_bot_inv by simp
  moreover have "disk ?st \<noteq> NoFile \<and> loop ?st = Idle"
    using ensure_task_file_exists[of f] by (simp add: init_bot_def Let_def)
  moreover have "cur_tasks ?st = load_tasks f" using ensure_task_file_load[of f] by simp
  ultimately show ?thesis using False by (simp add: main_start_def Let_def)
qed

section \<open>Witnesses\<close>

theorem main_start_outcome_witness:
  "main_start ''tok'' NoFile = Inr (init_bot (Stored (PList [])))
   \<and> disk (init_bot (Stored (PList []))) = Stored (PList []) \<and> bot_inv (init_bot (Stored (PList [])))"
  using main_start_outcome[of NoFile "''tok''"]
  by (simp add: main_start_def ensure_task_file_def token_placeholder_def file_ok_def init_bot_def Let_def)

end
