(* ===== verification/Spec2Isabelle.thy ===== *)
theory Spec2Isabelle
  imports Startup
begin

text \<open>
  \<^bold>\<open>ChronoReply: a verification library for \<^verbatim>\<open>src/chronoreply.py\<close>.\<close>

  \<^medskip>
  \<^bold>\<open>The program.\<close> ChronoReply is a Discord self-bot that sends scheduled
  messages. A message of the session's own user that starts with the prefix is a
  command (\<^verbatim>\<open>SchedulerCog.on_message\<close>): \<^verbatim>\<open>kirim\<close> schedules one message at a
  time parsed by \<^verbatim>\<open>parse_time_input\<close>; \<^verbatim>\<open>ulang harian|mingguan\<close> schedules a
  daily or weekly message whose first run \<^verbatim>\<open>ChronoReply._calculate_next_repeat\<close>
  computes; \<^verbatim>\<open>daftar\<close> lists, \<^verbatim>\<open>hapus\<close> deletes by id, \<^verbatim>\<open>tz\<close> shows the
  zone. Tasks are dictionaries in the list \<^verbatim>\<open>self.tasks\<close>, saved to a JSON file
  (\<^verbatim>\<open>save_tasks\<close>, \<^verbatim>\<open>_load_tasks\<close>) with the schedule as a
  \<^verbatim>\<open>%Y%m%d%H%M\<close> UTC string. The background task \<^verbatim>\<open>_scheduler_loop\<close> wakes
  every five seconds, sends each due task of the session, retires one-shot tasks,
  reschedules recurring ones, and saves when it retired a task. Both run on one
  asyncio event loop: a handler runs while the loop sleeps or awaits a send.

  \<^medskip>
  \<^bold>\<open>The theories.\<close>
  \<^item> \<open>Prelude\<close>: Python exceptions as \<open>py_error\<close>, fallible results
    \<open>py_error + 'a\<close> with \<open>pbind\<close>, time units in microseconds, list and
    association-list lemmas.
  \<^item> \<open>Calendar\<close>: the semantics of \<^verbatim>\<open>datetime\<close> and \<^verbatim>\<open>pytz\<close> that the code
    relies on: CPython's proleptic Gregorian ordinals (\<open>ymd_to_ord\<close>,
    \<open>ord_to_ymd\<close>, proved inverse), naive date-times as a linear microsecond
    count, aware date-times as wall fields with a fixed UTC offset (pytz without
    \<^verbatim>\<open>normalize\<close>), \<^verbatim>\<open>replace\<close>, \<^verbatim>\<open>timedelta(days=k)\<close>, \<^verbatim>\<open>astimezone(utc)\<close>,
    \<^verbatim>\<open>weekday()\<close>, comparison by UTC instant.
  \<^item> \<open>PyCore\<close>: Python values \<open>pyval\<close> (dictionaries as association lists),
    \<^verbatim>\<open>==\<close>, truthiness, \<^verbatim>\<open>d[k]\<close>, \<^verbatim>\<open>d.get\<close>, \<^verbatim>\<open>split\<close>, \<^verbatim>\<open>lower\<close>,
    \<^verbatim>\<open>int()\<close>, \<^verbatim>\<open>pytz.timezone\<close>.
  \<^item> \<open>Recurrence\<close>: \<^verbatim>\<open>_calculate_next_repeat\<close> (lines 214--249) as
    \<open>calculate_next_repeat\<close> with its branches \<open>next_daily\<close>, \<open>next_weekly\<close>;
    the clock reading is an argument. Claims C1--C7.
  \<^item> \<open>TimeParser\<close>: \<^verbatim>\<open>parse_time_input\<close> and \<^verbatim>\<open>get_next_day\<close> (lines
    34--102), one definition per grammar. Claims C8--C14.
  \<^item> \<open>TaskStore\<close>: \<^verbatim>\<open>_load_tasks\<close> and \<^verbatim>\<open>save_tasks\<close> (lines 130--162) over a
    file that holds a JSON value; \<^verbatim>\<open>strftime\<close> and CPython's \<^verbatim>\<open>_strptime\<close>
    regular expressions for \<^verbatim>\<open>%Y%m%d%H%M\<close>. Claims C15--C18.
  \<^item> \<open>Scheduler\<close>: \<^verbatim>\<open>_scheduler_loop\<close> (lines 175--212) on a heap:
    \<open>objs\<close> maps references to task dictionaries, \<open>lists\<close> maps references to
    Python lists, \<open>tasks_ref\<close> is \<^verbatim>\<open>self.tasks\<close>. \<open>sched_step\<close> runs one
    segment between suspension points (\<open>loop_state\<close>: the sleep, a pending
    send, or death by an uncaught exception); \<open>scan_refs\<close>, \<open>visit\<close>, \<open>fire\<close>,
    \<open>after_send\<close>, \<open>except_handler\<close>, \<open>finish_tick\<close> follow the loop body.
    The environment (\<open>world\<close>) gives the clock readings in order, the zone
    database, the session user, \<^verbatim>\<open>get_channel\<close> and the outcome of each send.
    Its facts include \<open>tick_end\<close>: an uninterrupted tick ends in \<open>finish_tick\<close>
    with a pending list satisfying any property its steps keep, the keys of every
    task but the schedule unchanged (\<open>same_keys\<close>).
    Claims C19--C24 and C35.
  \<^item> \<open>Commands\<close>: \<^verbatim>\<open>SchedulerCog\<close> (lines 255--464): \<open>on_message\<close> and one
    definition per handler, each an atomic step on the same heap, and
    \<open>bot_step\<close>, the interleaving of scheduler segments and handlers, with
    \<open>reachable\<close> states from \<open>init_bot\<close> (\<^verbatim>\<open>__init__\<close> loading the file).
    Claims C25--C29.
  \<^item> \<open>Invariant\<close>: the invariant of the whole bot (\<open>bot_inv\<close>): every reference a
    Python list holds is allocated and its task has an \<^verbatim>\<open>id\<close>, a \<^verbatim>\<open>user_id\<close> and
    a schedule that is \<^verbatim>\<open>None\<close> or a UTC whole-minute date-time (\<open>task_ok\<close>);
    \<^verbatim>\<open>self.tasks\<close> is allocated; a suspended send points at its list element;
    the loop is alive; the file has an id and an owner in every record
    (\<open>file_ok\<close>). One lemma per handler and per loop function shows it is
    preserved, and \<open>reachable_inv\<close> that it holds in every reachable state.
    It also holds the abstract task store \<open>store_step\<close> (keep, append a
    well-formed future task of the session, delete by id) and one simulation
    lemma per handler; the lemmas by which the scan of a tick reaches every due
    task (\<open>scan_reaches\<close>, \<open>sending_reaches\<close>, \<open>tick_reaches\<close>); and what
    a tick retires (\<open>tick_pending_once_ids\<close>, \<open>tick_pending_sent_once\<close>, two
    instances of the scheduler's \<open>tick_end\<close>, and \<open>tick_keeps_ref\<close>).
  \<^item> \<open>Startup\<close>: the \<^verbatim>\<open>__main__\<close> block (lines 470--490) as \<open>main_start\<close>:
    \<open>ensure_task_file\<close> writes an empty list when the file is missing, the
    placeholder token exits (a left value, the file left behind), any other token
    builds \<open>init_bot\<close> on the ensured file. Claim C39.
  \<^item> \<open>Spec2Isabelle\<close> (this theory): the properties that span components,
    claims C30--C34, C36--C38 and C40.

  \<^medskip>
  \<^bold>\<open>What is proved.\<close> The recurrence: the next firing is strictly after the
  reading, within a day or a week, at the requested wall time in the offset of
  the reading; the same-weekday cases of the spec; a daily task fires again
  exactly 24 hours later; unknown day names give \<open>None\<close>, and an hour or minute
  out of range raises \<^verbatim>\<open>ValueError\<close>, or \<^verbatim>\<open>OverflowError\<close> when it does not fit the
  C \<^verbatim>\<open>int\<close> that \<^verbatim>\<open>datetime.replace\<close> converts it to (\<open>fits_c_int\<close>).
  The parser: every result is strictly in the future and in UTC with whole
  minutes; the HH:MM and weekday cases of the spec; a 29-02 after a leap day and
  malformed single tokens are rejected. The store: the schedule format round-trips,
  save-then-load returns the tasks except those with schedule \<open>None\<close>, loaded
  schedules are UTC whole-minute, and a record without the schedule key empties
  the whole load. The loop: a tick without interruption ends (termination, with
  the bound one segment per task plus one), a due one-shot task is sent once,
  removed and saved; a failed send consumes nothing; a reschedule is not saved;
  the new schedule is after the tick; a task without owner kills the loop.
  The commands: a deletion during a send does not stop the deleted task's send;
  /kirim tasks are in the future; the two-token grammars are unreachable from
  /kirim; ids can collide; /daftar fails on a task whose schedule is \<open>None\<close>.
  The whole bot: from a file whose records carry an id and an owner, no
  interleaving of loop segments and commands kills the loop (C30), every task
  object stays well-formed (C31, the type invariant), and every file written can
  be started from again (C32); the command layer refines the abstract task store
  (C36); the HH:MM and weekday grammars of the parser compute exactly the first
  runs of the daily and weekly recurrences (C33, C34); an uninterrupted tick
  attempts at most one send per task (C35), and, when the sends succeed, delivers
  every due task of the session in that tick (C37); retiring a one-shot task
  removes from self.tasks every task with an equal id, recurring tasks included
  (C38). The entry point creates the task file before it checks the token and
  starts the bot in a state of the invariant (C39). A recurring task whose next run
  cannot be computed (an unknown zone) keeps its object through every loop segment
  and stays in self.tasks, so it is sent in one tick and again in the next (C40).

  \<^medskip>
  \<^bold>\<open>Bounds and fuel.\<close> No definition needs fuel: loops over lists are
  structural recursion, the calendar searches are \<^theory_text>\<open>function\<close>s with
  measures, and \<open>run_sched n\<close> runs the loop for at most \<open>n\<close> segments, \<open>n\<close>
  being a bound proved sufficient by claim C19 (length of
  the list plus one). Integers are unbounded, as in Python; the range of
  \<^verbatim>\<open>datetime\<close> (years 1--9999) appears where it matters (\<open>valid_ymd\<close>,
  \<open>stored_dt_ok\<close>).

  \<^medskip>
  \<^bold>\<open>Not modelled.\<close> The Discord client (login, \<^verbatim>\<open>bot.start\<close>,
  \<^verbatim>\<open>add_cog\<close>, \<^verbatim>\<open>get_context\<close>, \<^verbatim>\<open>process_commands\<close>, which only returns,
  the text of replies, the prints of \<^verbatim>\<open>on_ready\<close>) is I/O: replies are the
  abstract \<open>reply\<close> values and the client's effects are the \<open>world\<close>;
  \<^verbatim>\<open>on_ready\<close>'s \<^verbatim>\<open>create_task\<close> is the loop state \<open>Idle\<close> of \<open>init_bot\<close>.
  \<^verbatim>\<open>wait_until_ready\<close> and \<^verbatim>\<open>is_closed\<close> are not modelled (the loop is
  started and never closed). The JSON text and the file system are abstracted to
  the value the file holds. Strings are 8-bit character lists: Unicode digits
  and whitespace, which \<^verbatim>\<open>int()\<close>, \<^verbatim>\<open>split()\<close> and the regular expressions
  also accept, are not modelled. Offsets of pytz zones are a function of the
  instant; the zone data are not modelled. \<^verbatim>\<open>timedelta\<close> arithmetic past
  9999-12-31, which raises \<^verbatim>\<open>OverflowError\<close>, is not modelled (\<open>add_days\<close> is
  total; only clock readings in the year 9999 reach it); \<^verbatim>\<open>strftime\<close> pads
  \<^verbatim>\<open>%Y\<close> to four digits, as glibc does not below the year 1000 (reachable only
  from a hand-edited file); a failing \<^verbatim>\<open>json.dump\<close> is a \<open>Corrupt\<close> file
  rather than an exception (no task holds a value \<^verbatim>\<open>json\<close> cannot write but
  its schedule, which is formatted first). \<^verbatim>\<open>config.py\<close> is not under
  \<^verbatim>\<open>src/\<close>: its values are the parameters \<open>cmd_env\<close>.
\<close>

section \<open>Properties of the whole bot\<close>

text \<open>A task file with one task of the session user 7 for channel 55 due at
  2025-11-10 07:05 UTC, and a world whose clock reads that instant.\<close>

abbreviation owned_file :: task_file where
  "owned_file \<equiv> Stored (PList [PDict [(''id'', PStr ''a1''), (''user_id'', PInt 7), (''channel_id'', PInt 55),
     (''content'', PStr ''hi''), (''schedule_time_utc'', PStr ''202511100705'')]])"

abbreviation late_world :: world where
  "late_world \<equiv> \<lparr>clock = (\<lambda>_. 63898441500000000), tz_db = wib_db, me = PInt 7,
     has_channel = (\<lambda>_. True), send_ok = (\<lambda>_. True)\<rparr>"

text \<open>A task file in which a one-shot task due at 2025-11-10 07:05 UTC and a daily
  task due a day later share the id \<^verbatim>\<open>a1\<close> (claim C28 shows how /kirim produces one).\<close>

abbreviation dup_file :: task_file where
  "dup_file \<equiv> Stored (PList [
     PDict [(''id'', PStr ''a1''), (''user_id'', PInt 7), (''channel_id'', PInt 55), (''content'', PStr ''hi''),
            (''repeat_type'', PStr ''once''), (''schedule_time_utc'', PStr ''202511100705'')],
     PDict [(''id'', PStr ''a1''), (''user_id'', PInt 7), (''channel_id'', PInt 55), (''content'', PStr ''hi''),
            (''repeat_type'', PStr ''harian''), (''repeat_value'', PStr ''09:30''),
            (''timezone'', PStr ''Asia/Jakarta''), (''schedule_time_utc'', PStr ''202511110705'')]])"

text \<open>A task file with one daily task due at 2025-11-10 07:05 UTC whose zone
  \<^verbatim>\<open>Mars/Olympus\<close> pytz does not know.\<close>

abbreviation stale_file :: task_file where
  "stale_file \<equiv> Stored (PList [PDict [(''id'', PStr ''a1''), (''user_id'', PInt 7), (''channel_id'', PInt 55),
     (''content'', PStr ''hi''), (''repeat_type'', PStr ''harian''), (''repeat_value'', PStr ''09:30''),
     (''timezone'', PStr ''Mars/Olympus''), (''schedule_time_utc'', PStr ''202511100705'')]])"

text \<open>C30: the scheduler loop never dies: in every state reachable by any interleaving of loop segments and commands from a task file whose records have an id and a user_id, the background task has not ended with an uncaught exception.\<close>

theorem loop_never_dies:
  assumes "reachable w env f st" "file_ok f"
  shows "loop st \<noteq> Dead e"
  using reachable_inv[OF assms] by (auto simp: bot_inv_def loop_ok_def)

text \<open>C31: in every reachable state, every task object that a list of the bot holds (self.tasks, or the old list a suspended loop still iterates) has an id, a user_id and a schedule that is None or a UTC date-time in whole minutes.\<close>

theorem reachable_tasks_well_formed:
  assumes "reachable w env f st" "file_ok f" "r \<in> set (lists st l)"
  shows "task_ok (objs st r)"
  using reachable_inv[OF assms(1,2)] assms(3) by (auto simp: bot_inv_def heap_inv_def objs_ok_def)

text \<open>C32: every task file the bot writes in a reachable state is again one it can start from: a restart from the saved file keeps all the guarantees above.\<close>

theorem reachable_file_restartable:
  assumes "reachable w env f st" "file_ok f"
  shows "file_ok (disk st)"
  using reachable_inv[OF assms] by (simp add: bot_inv_def heap_inv_def)

text \<open>C36: the command layer refines the abstract task store: in every reachable state, a message handled by on_message changes self.tasks by one step of store_step: nothing, the deletion of every task with one id, or the appending of one well-formed task of the session whose schedule is after a clock reading the handler took; existing tasks are never modified or reordered.\<close>

theorem commands_refine_store:
  assumes "reachable w env f st" "file_ok f"
  shows "store_step w (reads st) (cur_tasks st) (cur_tasks (on_message w env msg st))"
  using on_message_store reachable_inv[OF assms] by blast


text \<open>C33: the HH:MM grammar of parse_time_input and the daily branch of _calculate_next_repeat compute the same instant: on a one-token time, parse_time_input in a zone returns exactly the first run that _calculate_next_repeat gives the temporary task that /ulang harian builds for that token in the same zone, and None exactly where the latter raises.\<close>

theorem parse_hhmm_equiv_daily:
  assumes "py_split s = [w]" "CHR '':'' \<in> set w" "db z = Some tz"
  shows "parse_time_input tz u s =
    (case calculate_next_repeat db u [(''repeat_type'', PStr ''harian''), (''repeat_value'', PStr w),
        (''repeat_day'', PNone), (''timezone'', PStr z)] of Inr (Some r) \<Rightarrow> Some r | _ \<Rightarrow> None)"
  using assms
  by (simp add: parse_single parse_hhmm_next_daily calculate_next_repeat_def hm_val_def pbind_def
      split: option.splits sum.splits)

text \<open>C34: the weekday grammar of parse_time_input (its closure get_next_day) and the weekly branch of _calculate_next_repeat compute the same instant: on '<hari> HH:MM', parse_time_input returns exactly the first run of the temporary task that /ulang mingguan builds for that day and time in the same zone, and None exactly where the latter raises.\<close>

theorem parse_weekday_equiv_weekly:
  assumes "py_split s = [d, w]" "py_lower d \<in> set hari" "db z = Some tz"
  shows "parse_time_input tz u s =
    (case calculate_next_repeat db u [(''repeat_type'', PStr ''mingguan''), (''repeat_value'', PStr w),
        (''repeat_day'', PStr (py_lower d)), (''timezone'', PStr z)] of Inr (Some r) \<Rightarrow> Some r | _ \<Rightarrow> None)"
  using assms get_next_day_as_weekly[OF assms(2)] lower_hari[OF assms(2)]
  by (simp add: parse_day parse_day_hhmm_def calculate_next_repeat_def hm_val_def lower_val_def pbind_def
      split: option.splits sum.splits)

text \<open>C40: a recurring task whose next run cannot be computed is sent at every tick: when _calculate_next_repeat raises for it at every clock reading (an unknown zone, say), the clock never goes back and no one-shot task of self.tasks has an equal id, the tick that delivers it leaves it in self.tasks with its object, and so its past schedule_time_utc, exactly as it was, and the next tick delivers it again.\<close>

theorem failed_repeat_resent:
  assumes "reachable w env f st" "file_ok f" "loop st = Idle" "r \<in> set (lists st (tasks_ref st))"
    "sendable w (now_in (\<lambda>_. 0) (clock w (reads st))) (objs st r)" "\<forall>k. send_ok w k"
    "\<forall>u. \<exists>e. calculate_next_repeat (tz_db w) u (objs st r) = Inl e" "mono (clock w)"
    "\<forall>y\<in>set (lists st (tasks_ref st)). map_of (objs st y) ''repeat_type'' = Some (PStr ''once'')
       \<longrightarrow> \<not> py_eq (dict_get (objs st r) ''id'') (dict_get (objs st y) ''id'')"
  shows "let st' = run_sched (Suc (length (lists st (tasks_ref st)))) w st;
             m = (r, dict_get (objs st r) ''channel_id'', dict_get (objs st r) ''content'')
         in m \<in> set (drop (length (sent st)) (sent st')) \<and> r \<in> set (lists st' (tasks_ref st'))
            \<and> objs st' r = objs st r
            \<and> m \<in> set (drop (length (sent st')) (sent (run_sched (Suc (length (lists st' (tasks_ref st')))) w st')))"
proof -
  define st' where "st' = run_sched (Suc (length (lists st (tasks_ref st)))) w st"
  have inv: "bot_inv st" using reachable_inv[OF assms(1,2)] .
  have inv': "bot_inv st'" unfolding st'_def by (rule reachable_inv[OF reachable_run_sched[OF assms(1)] assms(2)])
  have nd: "\<forall>e. loop st' \<noteq> Dead e" using inv' by (auto simp: bot_inv_def loop_ok_def)
  have keep: "objs st' r = objs st r" unfolding st'_def by (rule run_sched_keeps[OF assms(7)])
  have s1: "(r, dict_get (objs st r) ''channel_id'', dict_get (objs st r) ''content'')
      \<in> set (drop (length (sent st)) (sent st'))"
    unfolding st'_def by (rule tick_reaches[OF inv assms(3-6)])
  have r': "r \<in> set (lists st' (tasks_ref st'))"
    using tick_keeps_ref[OF _ assms(3) _ assms(4,9)] inv nd unfolding st'_def by (simp add: bot_inv_def)
  obtain p stX where "st' = finish_tick p stX"
    using tick_pending_once_ids[OF assms(3), of w] nd unfolding st'_def by blast
  then have idle: "loop st' = Idle" using finish_tick_loop[of p stX] nd by auto
  have "clock w (reads st) \<le> clock w (reads st')"
    using monoD[OF assms(8) run_sched_reads] unfolding st'_def .
  then have d': "sendable w (now_in (\<lambda>_. 0) (clock w (reads st'))) (objs st' r)"
    using sendable_later[OF assms(5)] keep by simp
  have s2: "(r, dict_get (objs st' r) ''channel_id'', dict_get (objs st' r) ''content'')
      \<in> set (drop (length (sent st')) (sent (run_sched (Suc (length (lists st' (tasks_ref st')))) w st')))"
    by (rule tick_reaches[OF inv' idle r' d' assms(6)])
  show ?thesis using s1 s2 r' keep unfolding Let_def st'_def[symmetric] by simp
qed

text \<open>C38: retiring a one-shot task removes every task with an equal id: from a reachable state at the sleep, when the sends succeed, the next tick sends each due one-shot task of the session and leaves out of self.tasks every task whose id equals its id, recurring tasks included, although /hapus never deleted them.\<close>

theorem once_retirement_removes_same_id:
  assumes "reachable w env f st" "file_ok f" "loop st = Idle" "r1 \<in> set (lists st (tasks_ref st))"
    "sendable w (now_in (\<lambda>_. 0) (clock w (reads st))) (objs st r1)"
    "map_of (objs st r1) ''repeat_type'' = Some (PStr ''once'')" "\<forall>k. send_ok w k"
    "r2 \<in> set (lists st (tasks_ref st))" "py_eq (dict_get (objs st r2) ''id'') (dict_get (objs st r1) ''id'')"
  shows "r2 \<notin> set (lists (run_sched (Suc (length (lists st (tasks_ref st)))) w st)
                        (tasks_ref (run_sched (Suc (length (lists st (tasks_ref st)))) w st)))"
proof -
  define st' where "st' = run_sched (Suc (length (lists st (tasks_ref st)))) w st"
  have inv: "bot_inv st" using reachable_inv[OF assms(1,2)] .
  have ok: "\<forall>x\<in>set (lists st (tasks_ref st)). task_ok (objs st x)"
    using inv by (auto simp: bot_inv_def heap_inv_def objs_ok_def)
  obtain tid where tid: "map_of (objs st r1) ''id'' = Some tid" using ok assms(4) by (auto simp: task_ok_def)
  have inv': "bot_inv st'" unfolding st'_def by (rule reachable_inv[OF reachable_run_sched[OF assms(1)] assms(2)])
  have nd: "\<forall>e. loop st' \<noteq> Dead e" using inv' by (auto simp: bot_inv_def loop_ok_def)
  obtain p stX where e: "st' = finish_tick p stX"
    and q: "r1 \<in> fst ` set (drop (length (sent st)) (sent stX)) \<longrightarrow> tid \<in> set p"
    and k: "same_keys (objs st) (objs stX)" and l: "lists stX = lists st" "tasks_ref stX = tasks_ref st"
    using tick_pending_sent_once[OF assms(3,6) tid, of w] nd unfolding st'_def by blast
  have "(r1, dict_get (objs st r1) ''channel_id'', dict_get (objs st r1) ''content'')
      \<in> set (drop (length (sent st)) (sent st'))"
    unfolding st'_def by (rule tick_reaches[OF inv assms(3,4,5,7)])
  then have tp: "tid \<in> set p" using q e finish_tick_counts[of p stX] by force
  have ids: "\<forall>x\<in>set (lists stX (tasks_ref stX)). map_of (objs stX x) ''id'' \<noteq> None"
    using ok l same_keysD[OF k] by (auto simp: task_ok_def)
  have "py_in (dict_get (objs stX r2) ''id'') p"
    using tp assms(9) tid same_keysD[OF k, of "''id''" r2] by (auto simp: py_in_def dict_get_def)
  then show ?thesis using finish_tick_tasks[OF ids, of p] e l tp unfolding st'_def[symmetric] by auto
qed

lemma owned_file_load:
  "load_tasks owned_file = [[(''id'', PStr ''a1''), (''user_id'', PInt 7), (''channel_id'', PInt 55),
     (''content'', PStr ''hi''), (''schedule_time_utc'', PDt sample_dt)]]"
  by (simp add: load_tasks_def load_body_def load_convert_def strptime_val_def sample_dt_parse dict_get_def
      dict_setitem_def dict_getitem_def)

lemma owned_file_ok: "file_ok owned_file"
  by (simp add: file_ok_def)

lemma owned_tick_reachable:
  "reachable (sample_world True) (sample_env ''b2'') owned_file (sched_step (sample_world True) (init_bot owned_file))"
  by (rule reachable.step[OF reachable.start], rule bot_step.loop_segment)

lemma next_day_parse: "strptime_ymdhm ''202511110705'' =
   Inr \<lparr>wall = \<lparr>dord = 739566, hour = 7, minute = 5, second = 0, microsecond = 0\<rparr>, utcoff = 0\<rparr>"
  by (simp add: strptime_ymdhm_def re_alt_def re_Y_def re_m_def re_d_def re_H_def re_M_def
      List.map_filter_simps dg_def py_eval valid_ymd_def days_in_month_def is_leap_def ymd_to_ord_def
      days_before_year_def days_before_month_def)

lemma dup_file_load:
  "load_tasks dup_file = [
     [(''id'', PStr ''a1''), (''user_id'', PInt 7), (''channel_id'', PInt 55), (''content'', PStr ''hi''),
      (''repeat_type'', PStr ''once''), (''schedule_time_utc'', PDt sample_dt)],
     [(''id'', PStr ''a1''), (''user_id'', PInt 7), (''channel_id'', PInt 55), (''content'', PStr ''hi''),
      (''repeat_type'', PStr ''harian''), (''repeat_value'', PStr ''09:30''),
      (''timezone'', PStr ''Asia/Jakarta''),
      (''schedule_time_utc'', PDt \<lparr>wall = \<lparr>dord = 739566, hour = 7, minute = 5, second = 0, microsecond = 0\<rparr>, utcoff = 0\<rparr>)]]"
  by (simp add: load_tasks_def load_body_def load_convert_def strptime_val_def sample_dt_parse next_day_parse
      dict_get_def dict_setitem_def dict_getitem_def)


lemma init_bot_reads: "reads (init_bot f) = 0"
  by (simp add: init_bot_def Let_def)

theorem loop_never_dies_witness:
  "loop (sched_step (sample_world True) (init_bot owned_file)) \<noteq> Dead KeyError"
  using loop_never_dies[OF owned_tick_reachable owned_file_ok] .

theorem reachable_tasks_well_formed_witness:
  "task_ok (objs (init_bot owned_file) 0)"
proof -
  have "0 \<in> set (lists (init_bot owned_file) 0)" by (simp add: init_bot_def owned_file_load)
  then show ?thesis
    using reachable_tasks_well_formed[OF reachable.start[of "sample_world True" "sample_env ''b2''" owned_file]
        owned_file_ok] by blast
qed

theorem reachable_file_restartable_witness:
  "file_ok (disk (sched_step (sample_world True) (init_bot owned_file)))"
  using reachable_file_restartable[OF owned_tick_reachable owned_file_ok] .

theorem parse_hhmm_equiv_daily_witness:
  "parse_time_input (\<lambda>_. 420) mon_10am ''09:30'' =
    (case calculate_next_repeat wib_db mon_10am [(''repeat_type'', PStr ''harian''), (''repeat_value'', PStr ''09:30''),
        (''repeat_day'', PNone), (''timezone'', PStr ''Asia/Jakarta'')] of Inr (Some r) \<Rightarrow> Some r | _ \<Rightarrow> None)"
  using parse_hhmm_equiv_daily[of "''09:30''" "''09:30''" wib_db "''Asia/Jakarta''" "\<lambda>_. 420" mon_10am]
  by (simp add: py_eval)

theorem parse_weekday_equiv_weekly_witness:
  "parse_time_input (\<lambda>_. 420) mon_10am ''Senin 09:30'' =
    (case calculate_next_repeat wib_db mon_10am [(''repeat_type'', PStr ''mingguan''), (''repeat_value'', PStr ''09:30''),
        (''repeat_day'', PStr ''senin''), (''timezone'', PStr ''Asia/Jakarta'')] of Inr (Some r) \<Rightarrow> Some r | _ \<Rightarrow> None)"
  using parse_weekday_equiv_weekly[of "''Senin 09:30''" "''Senin''" "''09:30''" wib_db "''Asia/Jakarta''" "\<lambda>_. 420" mon_10am]
  by (simp add: py_eval hari_def)

theorem commands_refine_store_witness:
  "store_step (sample_world True) 0 (cur_tasks (init_bot owned_file))
     (cur_tasks (on_message (sample_world True) (sample_env ''b2'') \<lparr>author = PInt 7, text_of = ''!hapus a1''\<rparr>
       (init_bot owned_file)))"
  using commands_refine_store[OF reachable.start[of "sample_world True" "sample_env ''b2''" owned_file] owned_file_ok,
      of "\<lparr>author = PInt 7, text_of = ''!hapus a1''\<rparr>"] init_bot_reads
  by simp


theorem once_retirement_removes_same_id_witness:
  "1 \<notin> set (lists (run_sched (Suc (length (lists (init_bot dup_file) (tasks_ref (init_bot dup_file))))) late_world
                    (init_bot dup_file))
               (tasks_ref (run_sched (Suc (length (lists (init_bot dup_file) (tasks_ref (init_bot dup_file))))) late_world
                    (init_bot dup_file))))"
proof -
  have l: "loop (init_bot dup_file) = Idle" "lists (init_bot dup_file) (tasks_ref (init_bot dup_file)) = [0, 1]"
    "objs (init_bot dup_file) 0 = [(''id'', PStr ''a1''), (''user_id'', PInt 7), (''channel_id'', PInt 55),
      (''content'', PStr ''hi''), (''repeat_type'', PStr ''once''), (''schedule_time_utc'', PDt sample_dt)]"
    "dict_get (objs (init_bot dup_file) 1) ''id'' = PStr ''a1''"
    by (simp_all add: init_bot_def dup_file_load upt_rec dict_get_def Let_def)
  have d: "sendable late_world (now_in (\<lambda>_. 0) (clock late_world (reads (init_bot dup_file)))) (objs (init_bot dup_file) 0)"
    using l(3) by (simp add: sendable_def aware_le_def utc_us_def naive_us_def now_in_def naive_of_us_def us_unit_defs)
  have f: "file_ok dup_file" by (simp add: file_ok_def)
  show ?thesis
    by (rule once_retirement_removes_same_id[OF reachable.start[of late_world "sample_env ''b2''" dup_file] f l(1) _ d])
      (simp_all add: l dict_get_def init_bot_def dup_file_load Let_def)
qed

lemma stale_file_load:
  "load_tasks stale_file = [[(''id'', PStr ''a1''), (''user_id'', PInt 7), (''channel_id'', PInt 55),
     (''content'', PStr ''hi''), (''repeat_type'', PStr ''harian''), (''repeat_value'', PStr ''09:30''),
     (''timezone'', PStr ''Mars/Olympus''), (''schedule_time_utc'', PDt sample_dt)]]"
  by (simp add: load_tasks_def load_body_def load_convert_def strptime_val_def sample_dt_parse dict_get_def
      dict_setitem_def dict_getitem_def)

theorem failed_repeat_resent_witness:
  "let st' = run_sched (Suc (length (lists (init_bot stale_file) (tasks_ref (init_bot stale_file))))) late_world
               (init_bot stale_file);
       m = (0, dict_get (objs (init_bot stale_file) 0) ''channel_id'', dict_get (objs (init_bot stale_file) 0) ''content'')
   in m \<in> set (drop (length (sent (init_bot stale_file))) (sent st')) \<and> 0 \<in> set (lists st' (tasks_ref st'))
      \<and> objs st' 0 = objs (init_bot stale_file) 0
      \<and> m \<in> set (drop (length (sent st')) (sent (run_sched (Suc (length (lists st' (tasks_ref st')))) late_world st')))"
proof -
  have l: "loop (init_bot stale_file) = Idle" "lists (init_bot stale_file) (tasks_ref (init_bot stale_file)) = [0]"
    "objs (init_bot stale_file) 0 = [(''id'', PStr ''a1''), (''user_id'', PInt 7), (''channel_id'', PInt 55),
     (''content'', PStr ''hi''), (''repeat_type'', PStr ''harian''), (''repeat_value'', PStr ''09:30''),
     (''timezone'', PStr ''Mars/Olympus''), (''schedule_time_utc'', PDt sample_dt)]"
    by (simp_all add: init_bot_def stale_file_load)
  have d: "sendable late_world (now_in (\<lambda>_. 0) (clock late_world (reads (init_bot stale_file)))) (objs (init_bot stale_file) 0)"
    using l(3) by (simp add: sendable_def aware_le_def utc_us_def naive_us_def now_in_def naive_of_us_def us_unit_defs)
  have e: "\<forall>u. \<exists>e. calculate_next_repeat (tz_db late_world) u (objs (init_bot stale_file) 0) = Inl e"
    using l(3) by (simp add: calculate_next_repeat_def pbind_def dict_getitem_def)
  have f: "file_ok stale_file" by (simp add: file_ok_def)
  show ?thesis
    by (rule failed_repeat_resent[OF reachable.start[of late_world "sample_env ''b2''" stale_file] f l(1) _ d _ e])
      (simp_all add: l mono_def)
qed

end
